theory Spec2Isabelle
  imports Main "HOL-Library.Char_ord" "HOL-Library.List_Lexorder" "HOL-Library.Product_Lexorder"
    "HOL-Library.Multiset"
begin

section \<open>Python strings\<close>

text \<open>
  A Python \<^verbatim>\<open>str\<close> is a sequence of code points.  The model takes texts over the
  code points below 256: a \<^typ>\<open>char\<close> \<open>c\<close> stands for the code point \<open>of_char c\<close>,
  characters are ordered by code point, and \<open>length\<close> counts code points as
  \<^verbatim>\<open>len\<close> does.  The character predicates below are those of Python 3 on that range.
\<close>

definition cp :: "char \<Rightarrow> nat" where
  "cp c = of_char c"

text \<open>\<^verbatim>\<open>str.isspace\<close>, which is also \<^verbatim>\<open>\s\<close> of \<^verbatim>\<open>re\<close> and what \<^verbatim>\<open>strip()\<close> and
  \<^verbatim>\<open>split()\<close> remove: TAB..CR, FS..US, space, NEL, NBSP.\<close>

definition py_isspace :: "char \<Rightarrow> bool" where
  "py_isspace c =
     ((CHR 0x09 \<le> c \<and> c \<le> CHR 0x0D) \<or> (CHR 0x1C \<le> c \<and> c \<le> CHR 0x20) \<or> c = CHR 0x85 \<or> c = CHR 0xA0)"

text \<open>\<^verbatim>\<open>\d\<close>: the decimal digits.\<close>

definition py_isdecimal :: "char \<Rightarrow> bool" where
  "py_isdecimal c = (CHR ''0'' \<le> c \<and> c \<le> CHR ''9'')"

text \<open>\<^verbatim>\<open>str.isupper\<close> of one character: A-Z and the capital letters U+00C0..U+00DE
  without the multiplication sign U+00D7.\<close>

definition py_isupper :: "char \<Rightarrow> bool" where
  "py_isupper c = ((CHR ''A'' \<le> c \<and> c \<le> CHR ''Z'') \<or> (CHR 0xC0 \<le> c \<and> c \<le> CHR 0xDE \<and> c \<noteq> CHR 0xD7))"

text \<open>The small letters whose capital lies below 256: a-z and U+00E0..U+00FE without the
  division sign U+00F7.\<close>

definition has_upper :: "char \<Rightarrow> bool" where
  "has_upper c = ((CHR ''a'' \<le> c \<and> c \<le> CHR ''z'') \<or> (CHR 0xE0 \<le> c \<and> c \<le> CHR 0xFE \<and> c \<noteq> CHR 0xF7))"

text \<open>The lower-case form of a capital is 32 code points higher, the capital of a small
  letter 32 lower: bit 5 of the code point is set or cleared.\<close>

definition py_lower :: "char \<Rightarrow> char" where
  "py_lower c =
     (if py_isupper c then (case c of Char b0 b1 b2 b3 b4 b5 b6 b7 \<Rightarrow> Char b0 b1 b2 b3 b4 True b6 b7)
      else c)"

definition py_upper :: "char \<Rightarrow> char" where
  "py_upper c =
     (if has_upper c then (case c of Char b0 b1 b2 b3 b4 b5 b6 b7 \<Rightarrow> Char b0 b1 b2 b3 b4 False b6 b7)
      else c)"

text \<open>A word character of \<^verbatim>\<open>\b\<close>: \<^verbatim>\<open>str.isalnum\<close> or the underscore.\<close>

definition py_isword :: "char \<Rightarrow> bool" where
  "py_isword c =
     ((CHR ''0'' \<le> c \<and> c \<le> CHR ''9'') \<or> (CHR ''A'' \<le> c \<and> c \<le> CHR ''Z'') \<or> c = CHR ''_'' \<or>
      (CHR ''a'' \<le> c \<and> c \<le> CHR ''z'') \<or>
      c = CHR 0xAA \<or> c = CHR 0xB2 \<or> c = CHR 0xB3 \<or> c = CHR 0xB5 \<or> c = CHR 0xB9 \<or> c = CHR 0xBA \<or>
      (CHR 0xBC \<le> c \<and> c \<le> CHR 0xBE) \<or> (CHR 0xC0 \<le> c \<and> c \<le> CHR 0xD6) \<or>
      (CHR 0xD8 \<le> c \<and> c \<le> CHR 0xF6) \<or> CHR 0xF8 \<le> c)"

text \<open>\<^verbatim>\<open>s.strip()\<close>.\<close>

definition strip :: "string \<Rightarrow> string" where
  "strip s = rev (dropWhile py_isspace (rev (dropWhile py_isspace s)))"

text \<open>\<^verbatim>\<open>s.split(sep)\<close> for a one-character separator: the empty string gives \<^verbatim>\<open>['']\<close>.\<close>

fun split_on :: "char \<Rightarrow> string \<Rightarrow> string list" where
  "split_on sep [] = [[]]"
| "split_on sep (c # cs) =
     (if c = sep then [] # split_on sep cs
      else (case split_on sep cs of [] \<Rightarrow> [[c]] | l # ls \<Rightarrow> (c # l) # ls))"

text \<open>\<^verbatim>\<open>s.split()\<close>: the maximal runs of characters that are not whitespace; \<open>w\<close> is
  the run being read, reversed.\<close>

fun split_ws_acc :: "string \<Rightarrow> string \<Rightarrow> string list" where
  "split_ws_acc w [] = (if w = [] then [] else [rev w])"
| "split_ws_acc w (c # cs) =
     (if py_isspace c then (if w = [] then split_ws_acc [] cs else rev w # split_ws_acc [] cs)
      else split_ws_acc (c # w) cs)"

definition split_ws :: "string \<Rightarrow> string list" where
  "split_ws s = split_ws_acc [] s"

text \<open>\<^verbatim>\<open>sep.join(xs)\<close>.\<close>

fun join :: "string \<Rightarrow> string list \<Rightarrow> string" where
  "join sep [] = []"
| "join sep [x] = x"
| "join sep (x # y # ys) = x @ sep @ join sep (y # ys)"

text \<open>\<^verbatim>\<open>s[i:j]\<close> for \<open>0 \<le> i\<close> and \<open>0 \<le> j\<close>: bounds beyond the end are clamped, and
  the slice is empty when \<open>j \<le> i\<close>.\<close>

definition slice :: "'a list \<Rightarrow> nat \<Rightarrow> nat \<Rightarrow> 'a list" where
  "slice s i j = take (j - i) (drop i s)"

text \<open>\<^verbatim>\<open>x in s\<close> on strings.\<close>

fun py_prefix :: "string \<Rightarrow> string \<Rightarrow> bool" where
  "py_prefix [] s = True"
| "py_prefix (x # xs) [] = False"
| "py_prefix (x # xs) (c # cs) = (if x = c then py_prefix xs cs else False)"

fun contains :: "string \<Rightarrow> string \<Rightarrow> bool" where
  "contains x [] = (x = [])"
| "contains x (c # cs) = (if py_prefix x (c # cs) then True else contains x cs)"

text \<open>\<^verbatim>\<open>s and s[0].isupper()\<close>.\<close>

definition starts_upper :: "string \<Rightarrow> bool" where
  "starts_upper s = (case s of [] \<Rightarrow> False | c # _ \<Rightarrow> py_isupper c)"

text \<open>Exceptions.\<close>

datatype py_error = ValueError

text \<open>\<^verbatim>\<open>int(s)\<close> on a string of decimal digits; the program applies it to the text of a
  group \<^verbatim>\<open>(19|20)\<close> only.  Any other string counts as rejected.\<close>

fun int_of_digits :: "nat \<Rightarrow> string \<Rightarrow> py_error + nat" where
  "int_of_digits acc [] = Inr acc"
| "int_of_digits acc (c # cs) =
     (if py_isdecimal c then int_of_digits (10 * acc + (cp c - 48)) cs else Inl ValueError)"

definition py_int :: "string \<Rightarrow> py_error + nat" where
  "py_int s = (if s = [] then Inl ValueError else int_of_digits 0 s)"

text \<open>The values of a list of computations that may raise: the first exception wins.\<close>

fun collect :: "('e + 'a) list \<Rightarrow> 'e + 'a list" where
  "collect [] = Inr []"
| "collect (x # xs) =
     (case x of Inl e \<Rightarrow> Inl e
      | Inr v \<Rightarrow> (case collect xs of Inl e \<Rightarrow> Inl e | Inr vs \<Rightarrow> Inr (v # vs)))"

text \<open>\<^verbatim>\<open>str(n)\<close> for a natural number.\<close>

fun str_nat :: "nat \<Rightarrow> string" where
  "str_nat n = (if n < 10 then [char_of (48 + n)] else str_nat (n div 10) @ [char_of (48 + n mod 10)])"

section \<open>Regular expressions of \<^verbatim>\<open>re\<close>\<close>

text \<open>
  The patterns of the program use literals, character classes, concatenation,
  alternation, greedy repetition, \<^verbatim>\<open>^\<close> (without MULTILINE: the start of the string),
  \<^verbatim>\<open>\b\<close>, negative look-behind and look-ahead of one character, and capture groups.
  \<open>CCode n\<close> is a class member given by its code point, for the caseless characters of a
  pattern beyond the code points of a text (the en dash and the em dash).
\<close>

datatype citem = CChar char | CCode nat | CRange char char | CSpace | CDigit

datatype regex =
    Lit string
  | Cls "citem list"
  | Seq regex regex
  | Alt regex regex
  | Rep nat "nat option" regex
  | Bos
  | WordB
  | NotBehind "citem list"
  | NotAhead "citem list"
  | Grp nat regex

text \<open>A matcher state: the text before the cursor (reversed), the text after it, and
  the groups captured so far (the latest capture of a group first).\<close>

type_synonym mstate = "string \<times> string \<times> (nat \<times> string) list"

text \<open>With IGNORECASE (\<open>ic\<close>) a character matches a literal when the lower-case forms
  agree, and a range when one of its case forms lies in it.\<close>

definition ceq :: "bool \<Rightarrow> char \<Rightarrow> char \<Rightarrow> bool" where
  "ceq ic x c = (if x = c then True else if ic then py_lower x = py_lower c else False)"

definition in_range :: "char \<Rightarrow> char \<Rightarrow> char \<Rightarrow> bool" where
  "in_range lo hi c = (lo \<le> c \<and> c \<le> hi)"

fun citem_match :: "bool \<Rightarrow> citem \<Rightarrow> char \<Rightarrow> bool" where
  "citem_match ic (CChar x) c = ceq ic x c"
| "citem_match ic (CCode n) c = (cp c = n)"
| "citem_match ic (CRange lo hi) c =
     (if in_range lo hi c then True
      else if ic then in_range lo hi (py_lower c) \<or> in_range lo hi (py_upper c) else False)"
| "citem_match ic CSpace c = py_isspace c"
| "citem_match ic CDigit c = py_isdecimal c"

fun in_class :: "bool \<Rightarrow> citem list \<Rightarrow> char \<Rightarrow> bool" where
  "in_class ic [] c = False"
| "in_class ic (i # items) c = (if citem_match ic i c then True else in_class ic items c)"

fun lit_match :: "bool \<Rightarrow> string \<Rightarrow> string \<Rightarrow> string \<Rightarrow> (string \<times> string) option" where
  "lit_match ic [] b a = Some (b, a)"
| "lit_match ic (x # xs) b [] = None"
| "lit_match ic (x # xs) b (c # a) = (if ceq ic x c then lit_match ic xs (c # b) a else None)"

text \<open>\<^verbatim>\<open>\b\<close>: exactly one of the two neighbours of the cursor is a word character.\<close>

definition at_boundary :: "string \<Rightarrow> string \<Rightarrow> bool" where
  "at_boundary b a =
     ((case b of [] \<Rightarrow> False | c # _ \<Rightarrow> py_isword c) \<noteq> (case a of [] \<Rightarrow> False | c # _ \<Rightarrow> py_isword c))"

text \<open>\<open>shorter xs ys\<close>: \<open>xs\<close> has fewer elements than \<open>ys\<close>.\<close>

fun shorter :: "'a list \<Rightarrow> 'a list \<Rightarrow> bool" where
  "shorter xs [] = False"
| "shorter [] (y # ys) = True"
| "shorter (x # xs) (y # ys) = shorter xs ys"

text \<open>The text between two cursors of one run, given the reversed texts before them.\<close>

definition consumed :: "string \<Rightarrow> string \<Rightarrow> string" where
  "consumed b b' = rev (take (length b' - length b) b')"

fun rweight :: "regex \<Rightarrow> nat" where
  "rweight (Seq r s) = Suc (rweight r + rweight s)"
| "rweight (Alt r s) = Suc (rweight r + rweight s)"
| "rweight (Rep lo hi r) = Suc (rweight r)"
| "rweight (Grp n r) = Suc (rweight r)"
| "rweight r = 0"

text \<open>
  \<open>rmatch ic r st\<close> lists the states in which a match of \<open>r\<close> begun in \<open>st\<close> can end,
  in the order in which the backtracking matcher of \<^verbatim>\<open>re\<close> tries them: the
  alternatives of \<^verbatim>\<open>|\<close> from left to right, a greedy repetition with more iterations
  first.  The head of the list is the match that \<^verbatim>\<open>re\<close> reports.  An iteration
  of a repetition has to consume text.
\<close>

function rmatch :: "bool \<Rightarrow> regex \<Rightarrow> mstate \<Rightarrow> mstate list" where
  "rmatch ic (Lit s) (b, a, g) =
     (case lit_match ic s b a of None \<Rightarrow> [] | Some (b', a') \<Rightarrow> [(b', a', g)])"
| "rmatch ic (Cls items) (b, a, g) =
     (case a of [] \<Rightarrow> [] | c # a' \<Rightarrow> if in_class ic items c then [(c # b, a', g)] else [])"
| "rmatch ic (Seq r s) (b, a, g) = concat (map (rmatch ic s) (rmatch ic r (b, a, g)))"
| "rmatch ic (Alt r s) (b, a, g) = rmatch ic r (b, a, g) @ rmatch ic s (b, a, g)"
| "rmatch ic (Rep lo hi r) (b, a, g) =
     (if hi = Some 0 then []
      else concat (map (rmatch ic (Rep (lo - 1) (map_option (\<lambda>h. h - 1) hi) r))
                       (filter (\<lambda>(b', a', g'). shorter a' a) (rmatch ic r (b, a, g)))))
     @ (if lo = 0 then [(b, a, g)] else [])"
| "rmatch ic Bos (b, a, g) = (if b = [] then [(b, a, g)] else [])"
| "rmatch ic WordB (b, a, g) = (if at_boundary b a then [(b, a, g)] else [])"
| "rmatch ic (NotBehind items) (b, a, g) =
     (case b of [] \<Rightarrow> [(b, a, g)] | c # _ \<Rightarrow> if in_class ic items c then [] else [(b, a, g)])"
| "rmatch ic (NotAhead items) (b, a, g) =
     (case a of [] \<Rightarrow> [(b, a, g)] | c # _ \<Rightarrow> if in_class ic items c then [] else [(b, a, g)])"
| "rmatch ic (Grp n r) (b, a, g) =
     map (\<lambda>(b', a', g'). (b', a', (n, consumed b b') # g')) (rmatch ic r (b, a, g))"
  by pat_completeness auto
termination
proof (relation "inv_image (less_than <*lex*> less_than) (\<lambda>(ic, r, (b, a, g)). (rweight r, length a))")
  have shorter_length: "shorter xs ys \<Longrightarrow> length xs < length ys" for xs ys :: string
    by (induction xs ys rule: shorter.induct) auto
  fix ic :: bool and lo :: nat and hi :: "nat option" and r :: regex
    and b a :: string and g :: "(nat \<times> string) list" and x :: mstate
  assume "x \<in> set (filter (\<lambda>(b', a', g'). shorter a' a) (rmatch ic r (b, a, g)))"
  then have "shorter (fst (snd x)) a" by (auto split: prod.splits)
  then have "length (fst (snd x)) < length a" by (rule shorter_length)
  then show "((ic, Rep (lo - 1) (map_option (\<lambda>h. h - 1) hi) r, x), (ic, Rep lo hi r, (b, a, g)))
      \<in> inv_image (less_than <*lex*> less_than) (\<lambda>(ic, r, (b, a, g)). (rweight r, length a))"
    by (cases x) auto
qed auto

text \<open>A match object: the state where the match starts and the state where it ends.\<close>

type_synonym rematch = "mstate \<times> mstate"

text \<open>\<^verbatim>\<open>m.start()\<close>, \<^verbatim>\<open>m.end()\<close>, \<^verbatim>\<open>m.group(0)\<close>.\<close>

definition m_start :: "rematch \<Rightarrow> nat" where
  "m_start m = length (fst (fst m))"

definition m_end :: "rematch \<Rightarrow> nat" where
  "m_end m = length (fst (snd m))"

definition m_group0 :: "rematch \<Rightarrow> string" where
  "m_group0 m = consumed (fst (fst m)) (fst (snd m))"

text \<open>\<^verbatim>\<open>m.group(n)\<close> for a group that took part in the match; for one that did not,
  the empty string that \<^verbatim>\<open>findall\<close> reports.\<close>

definition m_group :: "rematch \<Rightarrow> nat \<Rightarrow> string" where
  "m_group m n = (case map_of (snd (snd (snd m))) n of None \<Rightarrow> [] | Some s \<Rightarrow> s)"

text \<open>The scan of \<^verbatim>\<open>re.search\<close>: the first position, from the cursor on, at which
  the pattern matches, with the first match there.\<close>

fun scan :: "bool \<Rightarrow> regex \<Rightarrow> string \<Rightarrow> string \<Rightarrow> rematch option" where
  "scan ic r b [] = (case rmatch ic r (b, [], []) of [] \<Rightarrow> None | e # _ \<Rightarrow> Some ((b, [], []), e))"
| "scan ic r b (c # a) =
     (case rmatch ic r (b, c # a, []) of
        [] \<Rightarrow> scan ic r (c # b) a
      | e # _ \<Rightarrow> Some ((b, c # a, []), e))"

definition re_search :: "bool \<Rightarrow> regex \<Rightarrow> string \<Rightarrow> rematch option" where
  "re_search ic r s = scan ic r [] s"

text \<open>\<^verbatim>\<open>re.finditer\<close>: the successive non-overlapping matches.  After a match that
  consumed text the scan resumes where it ended.  (No pattern of the program matches the
  empty string; after such a match the scan here resumes one character further.)\<close>

function finditer_from :: "bool \<Rightarrow> regex \<Rightarrow> string \<Rightarrow> string \<Rightarrow> rematch list" where
  "finditer_from ic r b a =
     (case scan ic r b a of
        None \<Rightarrow> []
      | Some ((bs, as, gs), (b', a', g')) \<Rightarrow>
          ((bs, as, gs), (b', a', g')) #
          (if shorter a' as then finditer_from ic r b' a'
           else (case as of [] \<Rightarrow> [] | c # cs \<Rightarrow> finditer_from ic r (c # bs) cs)))"
  by pat_completeness auto
termination
proof (relation "measure (\<lambda>(ic, r, b, a). length a)")
  have shorter_length: "shorter xs ys \<Longrightarrow> length xs < length ys" for xs ys :: string
    by (induction xs ys rule: shorter.induct) auto
  have scan_start: "scan ic r b a = Some ((bs, as, gs), e) \<Longrightarrow> length as \<le> length a"
    for ic r b a bs as gs e
  proof (induction a arbitrary: b)
    case Nil
    then show ?case by (auto split: list.splits)
  next
    case (Cons c a)
    show ?case
    proof (cases "rmatch ic r (b, c # a, [])")
      case Nil
      with Cons.prems have "scan ic r (c # b) a = Some ((bs, as, gs), e)" by simp
      from Cons.IH [OF this] show ?thesis by simp
    next
      case (Cons e' es)
      with Cons.prems show ?thesis by auto
    qed
  qed
  show "wf (measure (\<lambda>(ic, r, b, a). length a))" by simp
  show "((ic, r, b', a'), (ic, r, b, a)) \<in> measure (\<lambda>(ic, r, b, a). length a)"
    if "scan ic r b a = Some x2" "(x, y) = x2" "(bs, xa) = x" "(as, gs) = xa" "(b', ya) = y"
      "(a', g') = ya" "shorter a' as"
    for ic r b a x2 x y bs xa as gs b' ya a' g'
    using that scan_start [of ic r b a bs as gs y] shorter_length [of a' as] by auto
  show "((ic, r, c # bs, cs), (ic, r, b, a)) \<in> measure (\<lambda>(ic, r, b, a). length a)"
    if "scan ic r b a = Some x2" "(x, y) = x2" "(bs, xa) = x" "(as, gs) = xa" "(b', ya) = y"
      "(a', g') = ya" "\<not> shorter a' as" "as = c # cs"
    for ic r b a x2 x y bs xa as gs b' ya a' g' c cs
    using that scan_start [of ic r b a bs as gs y] by auto
qed

definition re_finditer :: "bool \<Rightarrow> regex \<Rightarrow> string \<Rightarrow> rematch list" where
  "re_finditer ic r s = finditer_from ic r [] s"

text \<open>\<^verbatim>\<open>re.findall\<close> gives the whole match for a pattern without groups, the group
  for a pattern with one group, the tuple of the groups for a pattern with two.\<close>

definition re_findall0 :: "bool \<Rightarrow> regex \<Rightarrow> string \<Rightarrow> string list" where
  "re_findall0 ic r s = map m_group0 (re_finditer ic r s)"

definition re_findall1 :: "bool \<Rightarrow> regex \<Rightarrow> string \<Rightarrow> string list" where
  "re_findall1 ic r s = map (\<lambda>m. m_group m 1) (re_finditer ic r s)"

definition re_findall2 :: "bool \<Rightarrow> regex \<Rightarrow> string \<Rightarrow> (string \<times> string) list" where
  "re_findall2 ic r s = map (\<lambda>m. (m_group m 1, m_group m 2)) (re_finditer ic r s)"

text \<open>\<^verbatim>\<open>re.split\<close> for a pattern without groups: the pieces between the matches.\<close>

fun split_at :: "string \<Rightarrow> nat \<Rightarrow> rematch list \<Rightarrow> string list" where
  "split_at s pos [] = [drop pos s]"
| "split_at s pos (m # ms) = slice s pos (m_start m) # split_at s (m_end m) ms"

definition re_split :: "bool \<Rightarrow> regex \<Rightarrow> string \<Rightarrow> string list" where
  "re_split ic r s = split_at s 0 (re_finditer ic r s)"

subsection \<open>Writing patterns\<close>

fun alts :: "regex list \<Rightarrow> regex" where
  "alts [] = Cls []"
| "alts [r] = r"
| "alts (r # rs) = Alt r (alts rs)"

fun seqs :: "regex list \<Rightarrow> regex" where
  "seqs [] = Lit []"
| "seqs [r] = r"
| "seqs (r # rs) = Seq r (seqs rs)"

definition ws :: regex where "ws = Cls [CSpace]"
definition dg :: regex where "dg = Cls [CDigit]"
definition star :: "regex \<Rightarrow> regex" where "star r = Rep 0 None r"
definition plus1 :: "regex \<Rightarrow> regex" where "plus1 r = Rep 1 None r"
definition opt :: "regex \<Rightarrow> regex" where "opt r = Rep 0 (Some 1) r"
definition times :: "nat \<Rightarrow> regex \<Rightarrow> regex" where "times n r = Rep n (Some n) r"
definition NL :: regex where "NL = Lit [CHR 0x0A]"

text \<open>Words separated by \<^verbatim>\<open>\s+\<close>, as in \<^verbatim>\<open>Work\s+Experience\<close>.\<close>

fun phrase :: "string list \<Rightarrow> regex" where
  "phrase [] = Lit []"
| "phrase [w] = Lit w"
| "phrase (w # v # vs) = Seq (Lit w) (Seq (plus1 ws) (phrase (v # vs)))"

section \<open>The program: \<^verbatim>\<open>server/python/extract_pdf.py\<close>\<close>

text \<open>The letters of the patterns beyond ASCII, by code point.\<close>

definition a_acute :: char where "a_acute = CHR 0xE1"
definition e_acute :: char where "e_acute = CHR 0xE9"
definition i_acute :: char where "i_acute = CHR 0xED"
definition o_acute :: char where "o_acute = CHR 0xF3"
definition u_diaeresis :: char where "u_diaeresis = CHR 0xFC"
definition A_acute :: char where "A_acute = CHR 0xC1"

definition newline :: char where "newline = CHR 0x0A"

subsection \<open>\<^verbatim>\<open>identify_sections\<close>\<close>

text \<open>\<^verbatim>\<open>section_patterns\<close>: the dictionary in its insertion order.\<close>

definition section_patterns :: "(string \<times> regex) list" where
  "section_patterns =
   [(''summary'',
       Seq (alts [Lit ''Summary'', Lit ''Profile'', Lit ''About'', Lit ''Objective'',
                  phrase [''Professional'', ''Summary''], Lit ''Resumen'', Lit ''Perfil'',
                  Lit ''Objetivo'', phrase [''Acerca'', ''de'']])
           (Rep 0 (Some 3)
              (Seq (plus1 ws) (plus1 (Cls [CRange CHR ''A'' CHR ''Z'', CRange CHR ''a'' CHR ''z'']))))),
    (''experience'',
       alts [Lit ''Experience'', phrase [''Work'', ''Experience''], Lit ''Employment'',
             phrase [''Employment'', ''History''], phrase [''Professional'', ''Experience''],
             Lit ''Career'', Lit ''Experiencia'', phrase [''Experiencia'', ''Laboral''],
             Lit ''Empleo'', phrase [''Historial'', ''de'', ''Empleo''],
             phrase [''Experiencia'', ''Profesional''], Lit ''Trayectoria'', Lit ''Trabajo'']),
    (''education'',
       alts [Lit ''Education'', phrase [''Educational'', ''Background''], Lit ''Academic'',
             Lit ''Academics'', Lit ''Qualifications'', Lit ''Degrees'',
             Lit (''Educaci'' @ [o_acute] @ ''n''),
             phrase [''Formaci'' @ [o_acute] @ ''n'', ''Acad'' @ [e_acute] @ ''mica''],
             Lit ''Estudios'', Lit (''T'' @ [i_acute] @ ''tulos'')]),
    (''skills'',
       alts [Lit ''Skills'', Lit ''Abilities'', Lit ''Competencies'',
             phrase [''Technical'', ''Skills''], phrase [''Core'', ''Competencies''],
             Lit ''Qualifications'', Lit ''Habilidades'', Lit ''Competencias'',
             Lit ''Capacidades'', Lit ''Aptitudes'', Lit ''Conocimientos'']),
    (''certifications'',
       alts [Lit ''Certifications'', Lit ''Certificates'', Lit ''Credentials'',
             Lit ''Certificaciones'', Lit ''Certificados'', Lit ''Credenciales'']),
    (''languages'',
       alts [Lit ''Languages'', phrase [''Language'', ''Skills''], Lit ''Idiomas'',
             phrase [''Competencias'', ''Ling'' @ [u_diaeresis, i_acute] @ ''sticas'']]),
    (''projects'',
       alts [Lit ''Projects'', phrase [''Key'', ''Projects''],
             phrase [''Significant'', ''Projects''], phrase [''Project'', ''Experience''],
             Lit ''Proyectos'', phrase [''Proyectos'', ''Clave''],
             phrase [''Proyectos'', ''Significativos'']]),
    (''interests'',
       alts [Lit ''Interests'', Lit ''Hobbies'', Lit ''Activities'',
             phrase [''Personal'', ''Interests''], Lit ''Intereses'', Lit ''Pasatiempos'',
             Lit ''Actividades'', phrase [''Intereses'', ''Personales'']]),
    (''references'',
       alts [Lit ''References'', Lit ''Referees'', phrase [''Professional'', ''References''],
             Lit ''Referencias'', Lit ([A_acute] @ ''rbitros''),
             phrase [''Referencias'', ''Profesionales'']]),
    (''publications'',
       alts [Lit ''Publications'', phrase [''Published'', ''Works''], Lit ''Papers'',
             Lit ''Publicaciones'', phrase [''Trabajos'', ''Publicados''],
             Lit (''Art'' @ [i_acute] @ ''culos'')]),
    (''awards'',
       alts [Lit ''Awards'', Lit ''Honors'', Lit ''Achievements'', Lit ''Recognitions'',
             Lit ''Premios'', Lit ''Honores'', Lit ''Logros'', Lit ''Reconocimientos'']),
    (''volunteering'',
       alts [Lit ''Volunteering'', phrase [''Volunteer'', ''Experience''],
             phrase [''Community'', ''Service''], Lit ''Voluntariado'',
             phrase [''Experiencia'', ''de'', ''Voluntariado''],
             phrase [''Servicio'', ''Comunitario'']])]"

text \<open>The frame of a header: \<^verbatim>\<open>(?:^|\n\s*|\n\n)\<close> before and \<^verbatim>\<open>(?:\s*:|\s*\n)\<close> after.\<close>

definition header_start :: regex where
  "header_start = alts [Bos, Seq NL (star ws), Seq NL NL]"

definition header_end :: regex where
  "header_end = alts [Seq (star ws) (Lit '':''), Seq (star ws) NL]"

text \<open>\<^verbatim>\<open>full_pattern = r'(?:^|\n\s*|\n\n)(' + pattern + r')(?:\s*:|\s*\n)'\<close>\<close>

definition full_pattern :: "regex \<Rightarrow> regex" where
  "full_pattern pattern = seqs [header_start, Grp 1 pattern, header_end]"

text \<open>The first loop: for every kind, a triple (end of the match, kind, title) for every
  match of \<^verbatim>\<open>re.finditer(full_pattern, text, re.IGNORECASE)\<close>.\<close>

definition section_positions :: "string \<Rightarrow> (nat \<times> string \<times> string) list" where
  "section_positions text =
     concat (map (\<lambda>(section_type, pattern).
                    map (\<lambda>m. (m_end m, section_type, strip (m_group m 1)))
                        (re_finditer True (full_pattern pattern) text))
                 section_patterns)"

text \<open>The second loop, over the sorted triples: the text from a boundary to the next
  one (to the end of the text for the last), stripped, is stored under the kind; a later
  boundary of a kind overwrites an earlier one.\<close>

fun fill_sections ::
  "string \<Rightarrow> (nat \<times> string \<times> string) list \<Rightarrow> (string \<rightharpoonup> string) \<Rightarrow> (string \<rightharpoonup> string)" where
  "fill_sections text [] sections = sections"
| "fill_sections text ((start_pos, section_type, section_title) # rest) sections =
     fill_sections text rest
       (sections(section_type \<mapsto>
          strip (slice text start_pos
                   (case rest of [] \<Rightarrow> length text | (next_pos, next_type, next_title) # _ \<Rightarrow> next_pos))))"

text \<open>\<^verbatim>\<open>section_positions.sort()\<close> orders the triples lexicographically, strings by
  code point.\<close>

definition identify_sections :: "string \<Rightarrow> (string \<rightharpoonup> string)" where
  "identify_sections text = fill_sections text (sort (section_positions text)) Map.empty"

subsection \<open>The section glue of \<^verbatim>\<open>extract_from_pdf\<close>\<close>

text \<open>\<^verbatim>\<open>f"page_{i+1}"\<close>\<close>

definition page_key :: "nat \<Rightarrow> string" where
  "page_key i = ''page_'' @ str_nat (i + 1)"

text \<open>Lines 166 to 174: \<^verbatim>\<open>sections = {"content": text}\<close>, then a key per page when the
  text comes from pypdf with its pages, then \<^verbatim>\<open>sections.update(identify_sections(text))\<close>.\<close>

definition glue_sections :: "string \<Rightarrow> string \<Rightarrow> string list option \<Rightarrow> (string \<rightharpoonup> string)" where
  "glue_sections method_name text pages =
     (let sections = [''content'' \<mapsto> text];
          sections = (case pages of
                        None \<Rightarrow> sections
                      | Some ps \<Rightarrow>
                          if method_name = ''pypdf''
                          then fold (\<lambda>(i, page_text) m. m(page_key i \<mapsto> page_text)) (enumerate 0 ps) sections
                          else sections)
      in sections ++ identify_sections text)"

subsection \<open>\<^verbatim>\<open>extract_work_experiences_v2\<close>\<close>

definition experience_pattern :: regex where
  "experience_pattern =
     seqs [header_start,
           alts [Lit ''Experience'', phrase [''Work'', ''Experience''], Lit ''Employment'',
                 phrase [''Professional'', ''Experience''], Lit ''Experiencia'', Lit ''Trayectoria''],
           header_end]"

definition education_pattern :: regex where
  "education_pattern =
     seqs [header_start,
           alts [Lit ''Education'', Lit ''Educational'', Lit ''Academic'', Lit ''Academics'',
                 Lit ''Qualifications'', Lit ''Degrees'', Lit (''Educaci'' @ [o_acute] @ ''n''),
                 phrase [''Formaci'' @ [o_acute] @ ''n'', ''Acad'' @ [e_acute] @ ''mica'']],
           header_end]"

text \<open>The direct search: from the end of the first experience header to the start of the
  first education header (to the end of the text without one), stripped.\<close>

definition direct_experience_section :: "string \<Rightarrow> string option" where
  "direct_experience_section text =
     (case re_search True experience_pattern text of
        None \<Rightarrow> None
      | Some experience_match \<Rightarrow>
          Some (strip (slice text (m_end experience_match)
                         (case re_search True education_pattern text of
                            None \<Rightarrow> length text
                          | Some education_match \<Rightarrow> m_start education_match))))"

text \<open>\<^verbatim>\<open>if not experience_section\<close>: without a direct result, or with an empty one, the
  body that \<^verbatim>\<open>identify_sections\<close> stores under \<^verbatim>\<open>'experience'\<close>; \<open>None\<close> is the
  early \<^verbatim>\<open>return []\<close>.\<close>

definition locate_experience_section :: "string \<Rightarrow> string option" where
  "locate_experience_section text =
     (case direct_experience_section text of
        None \<Rightarrow> identify_sections text ''experience''
      | Some s \<Rightarrow> if s = [] then identify_sections text ''experience'' else Some s)"

definition months_en :: regex where
  "months_en = alts (map Lit [''January'', ''February'', ''March'', ''April'', ''May'', ''June'', ''July'',
     ''August'', ''September'', ''October'', ''November'', ''December''])"

definition months_es :: regex where
  "months_es = alts (map Lit [''Enero'', ''Febrero'', ''Marzo'', ''Abril'', ''Mayo'', ''Junio'', ''Julio'',
     ''Agosto'', ''Septiembre'', ''Octubre'', ''Noviembre'', ''Diciembre''])"

definition abbr_en :: regex where
  "abbr_en = Seq (alts (map Lit [''Jan'', ''Feb'', ''Mar'', ''Apr'', ''May'', ''Jun'', ''Jul'', ''Aug'', ''Sep'',
     ''Oct'', ''Nov'', ''Dec''])) (star (Cls [CRange CHR ''a'' CHR ''z'']))"

definition abbr_es :: regex where
  "abbr_es = Seq (alts (map Lit [''Ene'', ''Feb'', ''Mar'', ''Abr'', ''May'', ''Jun'', ''Jul'', ''Ago'', ''Sep'',
     ''Oct'', ''Nov'', ''Dic''])) (star (Cls [CRange CHR ''a'' CHR ''z'']))"

text \<open>\<^verbatim>\<open>\s*[-<en dash><em dash>a]+\s*\<close>\<close>

definition range_sep :: regex where
  "range_sep = seqs [star ws, plus1 (Cls [CChar CHR ''-'', CCode 0x2013, CCode 0x2014, CChar CHR ''a'']), star ws]"

definition present_en :: regex where
  "present_en = alts [Lit ''Present'', Lit ''Current'']"

definition present_es :: regex where
  "present_es = alts [Lit ''Presente'', Lit ''Actual'', Lit ''Actualidad'']"

definition century :: regex where
  "century = alts [Lit ''19'', Lit ''20'']"

text \<open>\<^verbatim>\<open>date_patterns\<close>, in the order of the list.\<close>

definition date_patterns :: "regex list" where
  "date_patterns =
   [seqs [months_en, plus1 ws, times 4 dg, range_sep, months_en, plus1 ws, times 4 dg],
    seqs [months_en, plus1 ws, times 4 dg, range_sep, present_en],
    seqs [months_es, plus1 ws, times 4 dg, range_sep, months_es, plus1 ws, times 4 dg],
    seqs [months_es, plus1 ws, times 4 dg, range_sep, present_es],
    seqs [abbr_en, plus1 ws, times 4 dg, range_sep, abbr_en, plus1 ws, times 4 dg],
    seqs [abbr_en, plus1 ws, times 4 dg, range_sep, present_en],
    seqs [abbr_es, plus1 ws, times 4 dg, range_sep, abbr_es, plus1 ws, times 4 dg],
    seqs [abbr_es, plus1 ws, times 4 dg, range_sep, present_es],
    seqs [NotBehind [CDigit], Grp 1 century, times 2 dg, range_sep,
          Grp 2 (alts [Seq century (times 2 dg), Lit ''Present'', Lit ''Current'', Lit ''Presente'',
                       Lit ''Actual'', Lit ''Actualidad'']),
          NotAhead [CDigit]]]"

text \<open>The inner loop with its \<^verbatim>\<open>break\<close>: the text matched by the first pattern that
  matches the line.\<close>

fun first_date_match :: "regex list \<Rightarrow> string \<Rightarrow> string option" where
  "first_date_match [] line = None"
| "first_date_match (pattern # patterns) line =
     (case re_search True pattern line of
        None \<Rightarrow> first_date_match patterns line
      | Some m \<Rightarrow> Some (m_group0 m))"

text \<open>\<^verbatim>\<open>date_positions\<close>: for the lines from index \<open>i\<close> on.\<close>

fun find_date_positions :: "nat \<Rightarrow> string list \<Rightarrow> (nat \<times> string) list" where
  "find_date_positions i [] = []"
| "find_date_positions i (line # lines) =
     (case first_date_match date_patterns line of
        None \<Rightarrow> find_date_positions (Suc i) lines
      | Some date_text \<Rightarrow> (i, date_text) # find_date_positions (Suc i) lines)"

definition title_keywords :: "string list" where
  "title_keywords = [''Director'', ''CIO'', ''Chief'', ''Manager'', ''Lead'', ''Engineer'', ''Developer'',
     ''Architect'', ''Analyst'', ''Consultant'', ''Specialist'', ''Asesor'', ''Jefe'', ''Gerente'',
     ''Ingeniero'']"

text \<open>The company: the stripped line before the date line when it starts with a capital;
  when the company is still \<^verbatim>\<open>"Unknown"\<close>, the first of the first two lines of the job
  that starts with a capital and has at most five words.  The line index \<open>start_idx - 1\<close>
  is read only when \<open>0 < start_idx\<close>, and \<open>start_idx\<close> is an index of \<open>lines\<close>.\<close>

definition pick_company :: "string list \<Rightarrow> nat \<Rightarrow> string list \<Rightarrow> string" where
  "pick_company lines start_idx job_lines =
     (let company =
            (if 0 < start_idx \<and> starts_upper (strip (lines ! (start_idx - 1)))
             then strip (lines ! (start_idx - 1)) else ''Unknown'')
      in if company = ''Unknown''
         then (case find (\<lambda>line. starts_upper (strip line) \<and> length (split_ws (strip line)) \<le> 5)
                         (take 2 job_lines) of
                 None \<Rightarrow> company
               | Some line \<Rightarrow> strip line)
         else company)"

definition title_candidates :: "string list \<Rightarrow> nat \<Rightarrow> string list \<Rightarrow> string \<Rightarrow> string \<Rightarrow> string list" where
  "title_candidates lines start_idx job_lines company date_text =
     (if 0 < start_idx \<and> company \<noteq> strip (lines ! (start_idx - 1))
      then [strip (lines ! (start_idx - 1))] else [])
     @ (if 1 < start_idx \<and> company = strip (lines ! (start_idx - 1))
        then [strip (lines ! (start_idx - 2))] else [])
     @ (case find (\<lambda>line. line \<noteq> company \<and> \<not> contains date_text line) job_lines of
          None \<Rightarrow> []
        | Some line \<Rightarrow> [strip line])"

definition pick_title :: "string list \<Rightarrow> nat \<Rightarrow> string list \<Rightarrow> string \<Rightarrow> string \<Rightarrow> string" where
  "pick_title lines start_idx job_lines company date_text =
     (if 0 < start_idx
      then (let candidates = title_candidates lines start_idx job_lines company date_text;
                title = (case find (\<lambda>candidate. list_ex (\<lambda>keyword. contains keyword candidate) title_keywords)
                                   candidates of
                           None \<Rightarrow> ''Unknown''
                         | Some candidate \<Rightarrow> candidate)
            in if title = ''Unknown'' \<and> candidates \<noteq> [] then hd candidates else title)
      else ''Unknown'')"

text \<open>The description lines: blank lines before the first kept line are skipped, a line
  whose stripped form is the company or the title is left out.\<close>

fun description_lines :: "string \<Rightarrow> string \<Rightarrow> string list \<Rightarrow> string list \<Rightarrow> string list" where
  "description_lines company title acc [] = acc"
| "description_lines company title acc (line # job_lines) =
     (if strip line = [] \<and> acc = [] then description_lines company title acc job_lines
      else if strip line \<noteq> company \<and> strip line \<noteq> title
           then description_lines company title (acc @ [line]) job_lines
           else description_lines company title acc job_lines)"

record work_experience =
  company :: string
  title :: string
  date :: string
  description :: string

definition build_entry :: "string list \<Rightarrow> nat \<Rightarrow> string \<Rightarrow> nat \<Rightarrow> work_experience" where
  "build_entry lines start_idx date_text end_idx =
     (let job_lines = slice lines start_idx end_idx;
          company_found = pick_company lines start_idx job_lines;
          title_found = pick_title lines start_idx job_lines company_found date_text
      in \<lparr>company = company_found, title = title_found, date = date_text,
          description = strip (join [newline] (description_lines company_found title_found [] job_lines))\<rparr>)"

text \<open>The loop over \<^verbatim>\<open>date_positions\<close>: a job runs from its date line to the date line
  of the next job, the last one to the end of the section.\<close>

fun build_entries :: "string list \<Rightarrow> (nat \<times> string) list \<Rightarrow> work_experience list" where
  "build_entries lines [] = []"
| "build_entries lines ((date_line_idx, date_text) # rest) =
     build_entry lines date_line_idx date_text
       (case rest of [] \<Rightarrow> length lines | (next_idx, next_text) # _ \<Rightarrow> next_idx)
     # build_entries lines rest"

text \<open>\<^verbatim>\<open>re.findall(r'(19|20)\d{2}', date_str)\<close>: the pattern has one group, so the
  result lists the texts of the group.\<close>

definition year_pattern :: regex where
  "year_pattern = Seq (Grp 1 century) (times 2 dg)"

definition extract_year :: "string \<Rightarrow> py_error + nat" where
  "extract_year date_str =
     (if date_str = [] \<or> date_str = ''Unknown'' then Inr 0
      else (case collect (map py_int (re_findall1 False year_pattern date_str)) of
              Inl e \<Rightarrow> Inl e
            | Inr [] \<Rightarrow> Inr 0
            | Inr (y # ys) \<Rightarrow> Inr (fold max ys y)))"

text \<open>\<^verbatim>\<open>work_experiences.sort(key=..., reverse=True)\<close>: the keys are computed first, the
  sort is stable, and with \<^verbatim>\<open>reverse=True\<close> entries of equal key keep their order
  (CPython reverses the list, sorts it and reverses it again).\<close>

definition sort_newest_first :: "work_experience list \<Rightarrow> py_error + work_experience list" where
  "sort_newest_first work_experiences =
     (case collect (map (\<lambda>x. extract_year (date x)) work_experiences) of
        Inl e \<Rightarrow> Inl e
      | Inr keys \<Rightarrow> Inr (map snd (rev (sort_key fst (rev (zip keys work_experiences))))))"

definition extract_work_experiences_v2 :: "string \<Rightarrow> py_error + work_experience list" where
  "extract_work_experiences_v2 text =
     (case locate_experience_section text of
        None \<Rightarrow> Inr []
      | Some experience_section \<Rightarrow>
          (let lines = split_on newline experience_section;
               date_positions = find_date_positions 0 lines
           in if date_positions = [] then Inr []
              else sort_newest_first (build_entries lines date_positions)))"

subsection \<open>\<^verbatim>\<open>extract_name\<close>\<close>

definition extract_name :: "string \<Rightarrow> string option" where
  "extract_name text =
     (case find (\<lambda>line. line \<noteq> [] \<and> length (split_ws (strip line)) \<le> 4 \<and> 3 < length (strip line))
                (take 3 (split_on newline text)) of
        None \<Rightarrow> None
      | Some line \<Rightarrow> Some (strip line))"

subsection \<open>\<^verbatim>\<open>extract_skills\<close>\<close>

definition skill :: "regex list \<Rightarrow> regex" where
  "skill names = seqs [WordB, alts names, WordB]"

definition skill_patterns :: "regex list" where
  "skill_patterns =
   [skill [Lit ''Python'', Lit ''Java'', Lit ''JavaScript'', Lit ''TypeScript'', Lit ''C++'', Lit ''C#'',
           Lit ''PHP'', Lit ''Ruby'', Lit ''Swift'', Lit ''Kotlin'', Lit ''Go'', Lit ''Rust'', Lit ''SQL'',
           Lit ''HTML'', Lit ''CSS'', Lit ''R'', Lit ''Matlab'', Lit ''Scala'', Lit ''Perl'', Lit ''Shell'',
           Lit ''Bash''],
    skill [Lit ''React'', Lit ''Angular'', Lit ''Vue'', Lit ''Node.js'', Lit ''Express'', Lit ''Django'',
           Lit ''Flask'', Lit ''Spring'', Lit ''Laravel'', Lit ''Rails'', Lit ''TensorFlow'', Lit ''PyTorch'',
           Lit ''Scikit-learn'', Lit ''Pandas''],
    skill [Lit ''Git'', Lit ''Docker'', Lit ''Kubernetes'', Lit ''AWS'', Lit ''Azure'', Lit ''GCP'',
           Lit ''Jenkins'', Lit ''Jira'', Lit ''Confluence'', Lit ''Tableau'', Lit ''PowerBI'', Lit ''Excel'',
           Lit ''Word'', Lit ''PowerPoint'', Lit ''Photoshop'', Lit ''Illustrator''],
    skill [Lit ''Leadership'', Lit ''Communication'', Lit ''Teamwork'', Lit ''Problem-solving'',
           Lit ''Critical thinking'', Lit ''Time management'', Lit ''Project management'', Lit ''Agile'',
           Lit ''Scrum'', Lit ''Liderazgo'', Lit (''Comunicaci'' @ [o_acute] @ ''n''),
           Lit ''Trabajo en equipo'', Lit (''Resoluci'' @ [o_acute] @ ''n de problemas''),
           Lit (''Gesti'' @ [o_acute] @ ''n de tiempo''), Lit (''Gesti'' @ [o_acute] @ ''n de proyectos'')],
    skill [Lit ''ISO 27001'', Lit ''ISO 27000'', Lit ''Information Security'', Lit ''Cybersecurity'',
           Lit ''Security'', Lit ''SOX'', Lit (''Seguridad Inform'' @ [a_acute] @ ''tica''),
           Lit ''Ciberseguridad'']]"

text \<open>The set \<^verbatim>\<open>skills\<close> after the loop; the program returns its elements as a list in
  the arbitrary order of the set.\<close>

definition extract_skills :: "string \<Rightarrow> string set" where
  "extract_skills text =
     fold (\<lambda>pattern skills. skills \<union> set (re_findall0 True pattern text)) skill_patterns {}"

subsection \<open>\<^verbatim>\<open>extract_education\<close>\<close>

text \<open>\<^verbatim>\<open>(?:\sof\s(?:...)|(?:\sen\s[A-Za-z\s]+))?\<close> after the degree words.\<close>

definition degree_field :: "string list \<Rightarrow> regex" where
  "degree_field subjects =
     opt (alts [seqs [ws, Lit ''of'', ws, alts (map Lit subjects)],
                seqs [ws, Lit ''en'', ws,
                      plus1 (Cls [CRange CHR ''A'' CHR ''Z'', CRange CHR ''a'' CHR ''z'', CSpace])]])"

definition degree_patterns :: "regex list" where
  "degree_patterns =
   [Seq (alts (map Lit [''Bachelor'', ''BA'', ''BS'', ''B.A.'', ''B.S.'', ''Licenciatura'', ''Grado'',
                        ''Licenciado'', ''Graduado'']))
        (degree_field [''Science'', ''Arts'', ''Business'', ''Engineering'']),
    Seq (alts (map Lit [''Master'', ''MA'', ''MS'', ''M.A.'', ''M.S.'', ''MBA'', ''M.B.A.'',
                        ''M'' @ [a_acute] @ ''ster'', ''Maestr'' @ [i_acute] @ ''a'']))
        (degree_field [''Science'', ''Arts'', ''Business'', ''Engineering'']),
    Seq (alts (map Lit [''Doctor'', ''PhD'', ''Ph.D.'', ''Doctorate'', ''Doctorado'']))
        (degree_field [''Science'', ''Arts'', ''Philosophy'', ''Engineering''])]"

text \<open>\<^verbatim>\<open>([A-Z][a-zA-Z\s&]+(?:University|College|School|Institute|Universidad|Escuela|Instituto))\<close>\<close>

definition institution_pattern :: regex where
  "institution_pattern =
     Grp 1 (seqs [Cls [CRange CHR ''A'' CHR ''Z''],
                  plus1 (Cls [CRange CHR ''a'' CHR ''z'', CRange CHR ''A'' CHR ''Z'', CSpace, CChar CHR ''&'']),
                  alts (map Lit [''University'', ''College'', ''School'', ''Institute'', ''Universidad'',
                                 ''Escuela'', ''Instituto''])])"

text \<open>\<^verbatim>\<open>(19|20)\d{2}\s*[-<en dash><em dash>a]+\s*((?:19|20)\d{2}|[Pp]resent|[Cc]urrent|[Aa]ctual)\<close>\<close>

definition education_date_pattern :: regex where
  "education_date_pattern =
     seqs [Grp 1 century, times 2 dg, range_sep,
           Grp 2 (alts [Seq century (times 2 dg),
                        Seq (Cls [CChar CHR ''P'', CChar CHR ''p'']) (Lit ''resent''),
                        Seq (Cls [CChar CHR ''C'', CChar CHR ''c'']) (Lit ''urrent''),
                        Seq (Cls [CChar CHR ''A'', CChar CHR ''a'']) (Lit ''ctual'')])]"

text \<open>\<^verbatim>\<open>\n\s*\n\<close>\<close>

definition paragraph_break :: regex where
  "paragraph_break = seqs [NL, star ws, NL]"

text \<open>The first degree pattern with a match gives its first match.\<close>

fun first_degree :: "regex list \<Rightarrow> string \<Rightarrow> string option" where
  "first_degree [] paragraph = None"
| "first_degree (pattern # patterns) paragraph =
     (case re_findall0 True pattern paragraph of
        [] \<Rightarrow> first_degree patterns paragraph
      | m # _ \<Rightarrow> Some m)"

text \<open>\<^verbatim>\<open>x or default\<close> for an optional string: \<^verbatim>\<open>None\<close> and the empty string are false.\<close>

definition or_default :: "string option \<Rightarrow> string \<Rightarrow> string" where
  "or_default x d = (case x of None \<Rightarrow> d | Some s \<Rightarrow> if s = [] then d else s)"

definition truthy :: "string option \<Rightarrow> bool" where
  "truthy x = (case x of None \<Rightarrow> False | Some s \<Rightarrow> s \<noteq> [])"

record education_entry =
  degree :: string
  institution :: string
  edu_date :: string

text \<open>The body of the loop over the paragraphs: the entries that a paragraph adds.\<close>

definition education_of_paragraph :: "string \<Rightarrow> education_entry list" where
  "education_of_paragraph paragraph =
     (if strip paragraph = [] then []
      else (let degree_found = first_degree degree_patterns paragraph;
                institution_found = (case re_findall1 False institution_pattern paragraph of
                                       [] \<Rightarrow> None | i # _ \<Rightarrow> Some i);
                date_found = (case re_findall2 False education_date_pattern paragraph of
                                [] \<Rightarrow> None | (d1, d2) # _ \<Rightarrow> Some (d1 @ ''-'' @ d2))
            in if truthy degree_found \<or> truthy institution_found
               then [\<lparr>degree = or_default degree_found ''Unspecified Degree'',
                      institution = or_default institution_found ''Unspecified Institution'',
                      edu_date = or_default date_found ''Unknown Date''\<rparr>]
               else []))"

definition extract_education :: "string \<Rightarrow> education_entry list" where
  "extract_education text =
     (let education_section = (case identify_sections text ''education'' of None \<Rightarrow> [] | Some s \<Rightarrow> s)
      in if education_section = [] then []
         else concat (map education_of_paragraph (re_split False paragraph_break education_section)))"

text \<open>Line 442 of \<^verbatim>\<open>extract_structured_info\<close>, where \<^verbatim>\<open>sections = identify_sections(text)\<close>:
  \<^verbatim>\<open>data['education'] = extract_education(sections.get('education', text))\<close>.\<close>

definition structured_education :: "string \<Rightarrow> education_entry list" where
  "structured_education text =
     extract_education (case identify_sections text ''education'' of None \<Rightarrow> text | Some s \<Rightarrow> s)"

section \<open>Stepwise forms of the matcher\<close>

text \<open>
  The functions below name the branches of the matcher, so that its equations can be
  stated without \<open>if\<close> and \<open>case\<close> (see the section on evaluation): a branch is then
  chosen by the constructor of an argument that has been computed before.
\<close>

definition lit_step :: "bool \<Rightarrow> bool \<Rightarrow> string \<Rightarrow> string \<Rightarrow> char \<Rightarrow> string \<Rightarrow> (string \<times> string) option" where
  "lit_step t ic xs b c a = (if t then lit_match ic xs (c # b) a else None)"

definition lit_res :: "(nat \<times> string) list \<Rightarrow> (string \<times> string) option \<Rightarrow> mstate list" where
  "lit_res g res = (case res of None \<Rightarrow> [] | Some (b', a') \<Rightarrow> [(b', a', g)])"

definition guard_res :: "bool \<Rightarrow> mstate \<Rightarrow> mstate list" where
  "guard_res t st = (if t then [st] else [])"

definition cons_if :: "bool \<Rightarrow> 'a \<Rightarrow> 'a list \<Rightarrow> 'a list" where
  "cons_if t x xs = (if t then x # xs else xs)"

definition keep_shorter :: "string \<Rightarrow> mstate list \<Rightarrow> mstate list" where
  "keep_shorter a sts = filter (\<lambda>(b', a', g'). shorter a' a) sts"

definition grp_res :: "nat \<Rightarrow> string \<Rightarrow> mstate list \<Rightarrow> mstate list" where
  "grp_res n b sts = map (\<lambda>(b', a', g'). (b', a', (n, consumed b b') # g')) sts"

definition scan_step :: "bool \<Rightarrow> regex \<Rightarrow> string \<Rightarrow> char \<Rightarrow> string \<Rightarrow> mstate list \<Rightarrow> rematch option" where
  "scan_step ic r b c a res =
     (case res of [] \<Rightarrow> scan ic r (c # b) a | e # _ \<Rightarrow> Some ((b, c # a, []), e))"

definition scan_end :: "string \<Rightarrow> mstate list \<Rightarrow> rematch option" where
  "scan_end b res = (case res of [] \<Rightarrow> None | e # _ \<Rightarrow> Some ((b, [], []), e))"

definition finditer_next :: "bool \<Rightarrow> bool \<Rightarrow> regex \<Rightarrow> string \<Rightarrow> string \<Rightarrow> string \<Rightarrow> string \<Rightarrow> rematch list" where
  "finditer_next t ic r bs as b' a' =
     (if t then finditer_from ic r b' a'
      else (case as of [] \<Rightarrow> [] | c # cs \<Rightarrow> finditer_from ic r (c # bs) cs))"

definition finditer_res :: "bool \<Rightarrow> regex \<Rightarrow> rematch option \<Rightarrow> rematch list" where
  "finditer_res ic r res =
     (case res of
        None \<Rightarrow> []
      | Some ((bs, as, gs), (b', a', g')) \<Rightarrow>
          ((bs, as, gs), (b', a', g')) # finditer_next (shorter a' as) ic r bs as b' a')"

section \<open>Notions used in the statements\<close>

text \<open>The least number of characters that a match of a pattern consumes.\<close>

fun minlen :: "regex \<Rightarrow> nat" where
  "minlen (Lit w) = length w"
| "minlen (Cls items) = 1"
| "minlen (Seq r s) = minlen r + minlen s"
| "minlen (Alt r s) = min (minlen r) (minlen s)"
| "minlen (Rep lo hi r) = lo * minlen r"
| "minlen (Grp n r) = minlen r"
| "minlen r = 0"

text \<open>A pattern without capture groups.\<close>

fun group_free :: "regex \<Rightarrow> bool" where
  "group_free (Seq r s) = (group_free r \<and> group_free s)"
| "group_free (Alt r s) = (group_free r \<and> group_free s)"
| "group_free (Rep lo hi r) = group_free r"
| "group_free (Grp n r) = False"
| "group_free r = True"

text \<open>The test of the specification on a line that may be a name: at most 4
  whitespace-separated tokens and a stripped length greater than 3.\<close>

definition name_like :: "string \<Rightarrow> bool" where
  "name_like line = (length (split_ws (strip line)) \<le> 4 \<and> 3 < length (strip line))"

text \<open>The sort key of the specification: the greatest four-digit year 19xx or 20xx that
  occurs in a date string, 0 when there is none.\<close>

definition spec_year_pattern :: regex where
  "spec_year_pattern = Seq century (times 2 dg)"

definition spec_max_year :: "string \<Rightarrow> nat" where
  "spec_max_year date_str =
     (case collect (map py_int (re_findall0 False spec_year_pattern date_str)) of
        Inl e \<Rightarrow> 0
      | Inr [] \<Rightarrow> 0
      | Inr (y # ys) \<Rightarrow> fold max ys y)"

text \<open>The spans that the second loop of \<^verbatim>\<open>identify_sections\<close> slices out of the text,
  before they are stripped: from each boundary offset to the next one, from the last to
  the end of the text.\<close>

fun boundary_spans :: "string \<Rightarrow> nat list \<Rightarrow> string list" where
  "boundary_spans text [] = []"
| "boundary_spans text (p # ps) =
     slice text p (case ps of [] \<Rightarrow> length text | q # _ \<Rightarrow> q) # boundary_spans text ps"

text \<open>The twelve section kinds.\<close>

definition section_kinds :: "string list" where
  "section_kinds = [''summary'', ''experience'', ''education'', ''skills'', ''certifications'',
     ''languages'', ''projects'', ''interests'', ''references'', ''publications'', ''awards'',
     ''volunteering'']"

text \<open>The lines of an experience section that match some date pattern.\<close>

definition date_lines :: "string \<Rightarrow> string list" where
  "date_lines experience_section =
     filter (\<lambda>line. \<exists>pattern \<in> set date_patterns. re_search True pattern line \<noteq> None)
            (split_on newline experience_section)"

section \<open>Evaluation\<close>

text \<open>The rewrite rules that evaluate the definitions on a concrete text.\<close>

declare finditer_from.simps [simp del]
declare str_nat.simps [simp del]

lemma length_Cons_Suc: "length (x # xs) = Suc (length xs)"
  by simp

lemma small_numerals:
  "(2::nat) = Suc (Suc 0)" "(3::nat) = Suc (Suc (Suc 0))" "(4::nat) = Suc (Suc (Suc (Suc 0)))"
  "(5::nat) = Suc (Suc (Suc (Suc (Suc 0))))"
  by simp_all

lemma nat_order_simps:
  "(Suc m \<le> Suc n) = (m \<le> n)" "(0 \<le> n) = True" "(Suc m \<le> 0) = False"
  "(Suc m < Suc n) = (m < n)" "(0 < Suc n) = True" "(m < 0) = False"
  "(Suc m - Suc n) = m - n" "(0 - n) = 0" "(m - 0) = m"
  "(Suc m = Suc n) = (m = n)" "(Suc m = 0) = False" "(0 = Suc n) = False"
  by simp_all

lemma take_drop_simps:
  "take 0 xs = []" "take n [] = []" "take (Suc n) (x # xs) = x # take n xs"
  "drop 0 xs = xs" "drop n [] = []" "drop (Suc n) (x # xs) = drop n xs"
  "(x # xs) ! 0 = x" "(x # xs) ! Suc n = xs ! n"
  by simp_all

lemma rev_eval: "rev xs = fold (#) xs []"
  by (simp add: rev_conv_fold)

lemma fold_eval: "fold f [] s = s" "fold f (x # xs) s = fold f xs (f x s)"
  by simp_all

lemma digit_values:
  "cp CHR ''0'' - 48 = 0" "cp CHR ''1'' - 48 = 1" "cp CHR ''2'' - 48 = 2" "cp CHR ''3'' - 48 = 3"
  "cp CHR ''4'' - 48 = 4" "cp CHR ''5'' - 48 = 5" "cp CHR ''6'' - 48 = 6" "cp CHR ''7'' - 48 = 7"
  "cp CHR ''8'' - 48 = 8" "cp CHR ''9'' - 48 = 9"
  by (simp_all add: cp_def)

lemma cp_less_256: "cp c < 256"
  by (simp add: cp_def)

lemma dash_codes: "citem_match ic (CCode 0x2013) c = False" "citem_match ic (CCode 0x2014) c = False"
  using cp_less_256 [of c] by auto


text \<open>The character predicates on the bits of a character.\<close>

lemma py_isspace_Char:
  "py_isspace (Char b0 b1 b2 b3 b4 b5 b6 b7) =
     (if b6 then False
      else if b7 then \<not> b4 \<and> \<not> b3 \<and> \<not> b1 \<and> (if b5 then \<not> b2 \<and> \<not> b0 else b2 \<and> b0)
      else if b5 then \<not> b4 \<and> \<not> b3 \<and> \<not> b2 \<and> \<not> b1 \<and> \<not> b0
      else b3 \<and> (if b4 then b2 else (if b2 then \<not> b1 else b1 \<or> b0)))"
  unfolding py_isspace_def
  by (cases b0; cases b1; cases b2; cases b3; cases b4; cases b5; cases b6; cases b7; simp)

lemma py_isdecimal_Char:
  "py_isdecimal (Char b0 b1 b2 b3 b4 b5 b6 b7) =
     (if b7 \<or> b6 then False else b5 \<and> b4 \<and> (if b3 then \<not> b2 \<and> \<not> b1 else True))"
  unfolding py_isdecimal_def
  by (cases b0; cases b1; cases b2; cases b3; cases b4; cases b5; cases b6; cases b7; simp)

lemma py_isupper_Char:
  "py_isupper (Char b0 b1 b2 b3 b4 b5 b6 b7) =
     (if b5 \<or> \<not> b6 then False
      else if b7 then \<not> (b0 \<and> b1 \<and> b2 \<and> b4)
      else (b0 \<or> b1 \<or> b2 \<or> b3 \<or> b4) \<and> \<not> (b4 \<and> b3 \<and> (b2 \<or> (b1 \<and> b0))))"
  unfolding py_isupper_def
  by (cases b0; cases b1; cases b2; cases b3; cases b4; cases b5; cases b6; cases b7; simp)

lemma has_upper_Char:
  "has_upper (Char b0 b1 b2 b3 b4 b5 b6 b7) =
     (if \<not> b5 \<or> \<not> b6 then False
      else if b7 then \<not> (b0 \<and> b1 \<and> b2 \<and> b4)
      else (b0 \<or> b1 \<or> b2 \<or> b3 \<or> b4) \<and> \<not> (b4 \<and> b3 \<and> (b2 \<or> (b1 \<and> b0))))"
  unfolding has_upper_def
  by (cases b0; cases b1; cases b2; cases b3; cases b4; cases b5; cases b6; cases b7; simp)

lemma py_isword_Char:
  "py_isword (Char b0 b1 b2 b3 b4 b5 b6 b7) =
     (if b7 then
        (if b6 then \<not> (b0 \<and> b1 \<and> b2 \<and> \<not> b3 \<and> b4)
         else b5 \<and> (if b4 then (if b3 then (if b2 then \<not> (b1 \<and> b0) else b1 \<noteq> b0)
                                  else (if b2 then \<not> b1 \<and> b0 else b1))
                      else b3 \<and> \<not> b2 \<and> b1 \<and> \<not> b0))
      else if b6 then
        ((b0 \<or> b1 \<or> b2 \<or> b3 \<or> b4) \<and> \<not> (b4 \<and> b3 \<and> (b2 \<or> (b1 \<and> b0)))) \<or>
        (\<not> b5 \<and> b4 \<and> b3 \<and> b2 \<and> b1 \<and> b0)
      else b5 \<and> b4 \<and> (if b3 then \<not> b2 \<and> \<not> b1 else True))"
  unfolding py_isword_def
  by (cases b0; cases b1; cases b2; cases b3; cases b4; cases b5; cases b6; cases b7; simp)

lemma py_lower_Char:
  "py_lower (Char b0 b1 b2 b3 b4 b5 b6 b7) =
     (if py_isupper (Char b0 b1 b2 b3 b4 b5 b6 b7) then Char b0 b1 b2 b3 b4 True b6 b7
      else Char b0 b1 b2 b3 b4 b5 b6 b7)"
  by (simp add: py_lower_def)

lemma py_upper_Char:
  "py_upper (Char b0 b1 b2 b3 b4 b5 b6 b7) =
     (if has_upper (Char b0 b1 b2 b3 b4 b5 b6 b7) then Char b0 b1 b2 b3 b4 False b6 b7
      else Char b0 b1 b2 b3 b4 b5 b6 b7)"
  by (simp add: py_upper_def)

text \<open>Two characters agree under IGNORECASE when they agree up to bit 5 and, if they
  differ there, are the two case forms of a letter.\<close>

lemma ceq_Char:
  "ceq ic (Char a0 a1 a2 a3 a4 a5 a6 a7) (Char c0 c1 c2 c3 c4 c5 c6 c7) =
     (if a0 = c0 \<and> a1 = c1 \<and> a2 = c2 \<and> a3 = c3 \<and> a4 = c4 \<and> a6 = c6 \<and> a7 = c7
      then (if a5 = c5 then True
            else ic \<and> a6 \<and> (if a7 then \<not> (a0 \<and> a1 \<and> a2 \<and> a4)
                              else (a0 \<or> a1 \<or> a2 \<or> a3 \<or> a4) \<and> \<not> (a4 \<and> a3 \<and> (a2 \<or> (a1 \<and> a0)))))
      else False)"
  unfolding ceq_def py_lower_Char py_isupper_Char char.inject
  by (cases a5; cases c5; cases ic; simp; blast)

lemma in_range_lower_Char:
  "in_range CHR ''a'' CHR ''z'' (Char b0 b1 b2 b3 b4 b5 b6 b7) =
     (if b7 \<or> \<not> b6 \<or> \<not> b5 then False
      else (b0 \<or> b1 \<or> b2 \<or> b3 \<or> b4) \<and> \<not> (b4 \<and> b3 \<and> (b2 \<or> (b1 \<and> b0))))"
  unfolding in_range_def
  by (cases b0; cases b1; cases b2; cases b3; cases b4; cases b5; cases b6; cases b7; simp)

lemma in_range_upper_Char:
  "in_range CHR ''A'' CHR ''Z'' (Char b0 b1 b2 b3 b4 b5 b6 b7) =
     (if b7 \<or> \<not> b6 \<or> b5 then False
      else (b0 \<or> b1 \<or> b2 \<or> b3 \<or> b4) \<and> \<not> (b4 \<and> b3 \<and> (b2 \<or> (b1 \<and> b0))))"
  unfolding in_range_def
  by (cases b0; cases b1; cases b2; cases b3; cases b4; cases b5; cases b6; cases b7; simp)


text \<open>The matcher, equation by equation, with the branches named.\<close>

lemma lit_match_eval:
  "lit_match ic [] b a = Some (b, a)"
  "lit_match ic (x # xs) b [] = None"
  "lit_match ic (x # xs) b (c # a) = lit_step (ceq ic x c) ic xs b c a"
  "lit_step True ic xs b c a = lit_match ic xs (c # b) a"
  "lit_step False ic xs b c a = None"
  by (simp_all add: lit_step_def)

lemma helper_eval:
  "lit_res g None = []"
  "lit_res g (Some (b', a')) = [(b', a', g)]"
  "guard_res True st = [st]"
  "guard_res False st = []"
  "cons_if True x xs = x # xs"
  "cons_if False x xs = xs"
  "keep_shorter a [] = []"
  "keep_shorter a ((b', a', g') # sts) = cons_if (shorter a' a) (b', a', g') (keep_shorter a sts)"
  "grp_res n b [] = []"
  "grp_res n b ((b', a', g') # sts) = (b', a', (n, consumed b b') # g') # grp_res n b sts"
  by (simp_all add: lit_res_def guard_res_def cons_if_def keep_shorter_def grp_res_def)

lemma at_boundary_eval:
  "at_boundary [] [] = False"
  "at_boundary [] (c # a) = py_isword c"
  "at_boundary (x # b) [] = py_isword x"
  "at_boundary (x # b) (c # a) = (py_isword x \<noteq> py_isword c)"
  by (simp_all add: at_boundary_def)

lemma rmatch_eval:
  "rmatch ic (Lit w) (b, a, g) = lit_res g (lit_match ic w b a)"
  "rmatch ic (Cls items) (b, [], g) = []"
  "rmatch ic (Cls items) (b, c # a, g) = guard_res (in_class ic items c) (c # b, a, g)"
  "rmatch ic (Seq r s) (b, a, g) = concat (map (rmatch ic s) (rmatch ic r (b, a, g)))"
  "rmatch ic (Alt r s) (b, a, g) = rmatch ic r (b, a, g) @ rmatch ic s (b, a, g)"
  "rmatch ic Bos ([], a, g) = [([], a, g)]"
  "rmatch ic Bos (x # b, a, g) = []"
  "rmatch ic WordB (b, a, g) = guard_res (at_boundary b a) (b, a, g)"
  "rmatch ic (NotBehind items) ([], a, g) = [([], a, g)]"
  "rmatch ic (NotBehind items) (x # b, a, g) = guard_res (\<not> in_class ic items x) (x # b, a, g)"
  "rmatch ic (NotAhead items) (b, [], g) = [(b, [], g)]"
  "rmatch ic (NotAhead items) (b, c # a, g) = guard_res (\<not> in_class ic items c) (b, c # a, g)"
  "rmatch ic (Grp n r) (b, a, g) = grp_res n b (rmatch ic r (b, a, g))"
  by (simp_all add: lit_res_def guard_res_def grp_res_def)

lemma rmatch_Rep_eval:
  "rmatch ic (Rep 0 (Some 0) r) (b, a, g) = [(b, a, g)]"
  "rmatch ic (Rep (Suc lo) (Some 0) r) (b, a, g) = []"
  "rmatch ic (Rep 0 (Some (Suc h)) r) (b, a, g) =
     concat (map (rmatch ic (Rep 0 (Some h) r)) (keep_shorter a (rmatch ic r (b, a, g)))) @ [(b, a, g)]"
  "rmatch ic (Rep (Suc lo) (Some (Suc h)) r) (b, a, g) =
     concat (map (rmatch ic (Rep lo (Some h) r)) (keep_shorter a (rmatch ic r (b, a, g))))"
  "rmatch ic (Rep 0 None r) (b, a, g) =
     concat (map (rmatch ic (Rep 0 None r)) (keep_shorter a (rmatch ic r (b, a, g)))) @ [(b, a, g)]"
  "rmatch ic (Rep (Suc lo) None r) (b, a, g) =
     concat (map (rmatch ic (Rep lo None r)) (keep_shorter a (rmatch ic r (b, a, g))))"
  by (simp_all add: keep_shorter_def)

lemma scan_eval:
  "scan ic r b [] = scan_end b (rmatch ic r (b, [], []))"
  "scan ic r b (c # a) = scan_step ic r b c a (rmatch ic r (b, c # a, []))"
  "scan_end b [] = None"
  "scan_end b (e # es) = Some ((b, [], []), e)"
  "scan_step ic r b c a [] = scan ic r (c # b) a"
  "scan_step ic r b c a (e # es) = Some ((b, c # a, []), e)"
  by (simp_all add: scan_step_def scan_end_def)

lemma finditer_eval:
  "finditer_from ic r b a = finditer_res ic r (scan ic r b a)"
  "finditer_res ic r None = []"
  "finditer_res ic r (Some ((bs, as, gs), (b', a', g'))) =
     ((bs, as, gs), (b', a', g')) # finditer_next (shorter a' as) ic r bs as b' a'"
  "finditer_next True ic r bs as b' a' = finditer_from ic r b' a'"
  "finditer_next False ic r bs [] b' a' = []"
  "finditer_next False ic r bs (c # cs) b' a' = finditer_from ic r (c # bs) cs"
proof -
  show "finditer_from ic r b a = finditer_res ic r (scan ic r b a)"
    by (subst finditer_from.simps)
       (simp add: finditer_res_def finditer_next_def split: option.splits prod.splits)
qed (simp_all add: finditer_res_def finditer_next_def)

lemmas engine_simps =
  py_isspace_Char py_isdecimal_Char py_isupper_Char has_upper_Char py_lower_Char py_upper_Char
  py_isword_Char ceq_Char in_range_lower_Char in_range_upper_Char char.inject
  strip_def split_on.simps split_ws_acc.simps split_ws_def join.simps slice_def
  py_prefix.simps contains.simps starts_upper_def
  citem_match.simps(1,3,4,5) dash_codes in_class.simps lit_match_eval helper_eval
  at_boundary_eval shorter.simps consumed_def rmatch_eval rmatch_Rep_eval
  m_start_def m_end_def m_group0_def m_group_def scan_eval re_search_def finditer_eval
  re_finditer_def re_findall0_def re_findall1_def re_findall2_def split_at.simps re_split_def
  alts.simps seqs.simps ws_def dg_def star_def plus1_def opt_def times_def NL_def phrase.simps

lemmas data_simps =
  simp_thms if_True if_False prod.case fst_conv snd_conv list.case option.case sum.case
  list.inject list.distinct option.inject option.distinct sum.inject sum.distinct prod.inject
  append_Nil append_Cons list.map concat.simps filter.simps rev_eval fold_eval dropWhile.simps
  take_drop_simps List.find.simps zip_Cons_Cons zip_Nil zip.simps(1) list.sel
  map_of.simps fun_upd_apply option.map
  One_nat_def small_numerals nat_order_simps length_Cons_Suc list.size(3)
  list_ex_Nil_iff list_ex_Cons_iff

lemmas program_simps =
  a_acute_def e_acute_def i_acute_def o_acute_def u_diaeresis_def A_acute_def newline_def
  section_patterns_def header_start_def header_end_def full_pattern_def section_positions_def
  fill_sections.simps identify_sections_def
  experience_pattern_def education_pattern_def direct_experience_section_def
  locate_experience_section_def months_en_def months_es_def abbr_en_def abbr_es_def range_sep_def
  present_en_def present_es_def century_def date_patterns_def first_date_match.simps
  find_date_positions.simps title_keywords_def pick_company_def title_candidates_def pick_title_def
  description_lines.simps build_entry_def build_entries.simps year_pattern_def
  extract_name_def skill_def skill_patterns_def
  degree_field_def degree_patterns_def institution_pattern_def education_date_pattern_def
  paragraph_break_def first_degree.simps or_default_def truthy_def education_of_paragraph_def
  extract_education_def structured_education_def Let_def

lemmas sort_simps =
  sort_key_simps insort_key.simps less_eq_prod_simp Cons_le_Cons Nil_le_Cons le_Nil
  Cons_less_Cons Nil_less_Cons not_less_Nil less_char_simp lexordp_simps less_bool_def

lemma py_int_century: "py_int ''19'' = Inr 19" "py_int ''20'' = Inr 20"
  by (simp_all add: py_int_def py_isdecimal_def cp_def)

lemmas v2_simps =
  extract_work_experiences_v2_def sort_newest_first_def extract_year_def collect.simps
  py_int_century max_def work_experience.select_convs rel_simps

section \<open>Properties of the matcher\<close>

declare rmatch.simps [simp del]

lemma shorter_length: "shorter xs ys \<Longrightarrow> length xs < length ys"
  by (induction xs ys rule: shorter.induct) auto

lemma consumed_rev [simp]: "consumed b (rev m @ b) = m"
  by (simp add: consumed_def)

lemma ceq_False [simp]: "ceq False x c = (x = c)"
  by (simp add: ceq_def)

text \<open>A literal consumes a text of its own length, equal to it up to case.\<close>

lemma lit_match_inv:
  "lit_match ic w b a = Some (b', a') \<Longrightarrow>
     \<exists>m. b' = rev m @ b \<and> a = m @ a' \<and> length m = length w \<and> list_all2 (ceq ic) w m"
proof (induction w arbitrary: b a)
  case Nil
  then show ?case by simp
next
  case (Cons x xs)
  show ?case
  proof (cases a)
    case Nil
    with Cons.prems show ?thesis by simp
  next
    case (Cons c a2)
    with Cons.prems have c: "ceq ic x c" and rest: "lit_match ic xs (c # b) a2 = Some (b', a')"
      by (auto split: if_splits)
    from Cons.IH [OF rest] obtain m where "b' = rev m @ c # b" "a2 = m @ a'" "length m = length xs"
      "list_all2 (ceq ic) xs m" by blast
    with c Cons show ?thesis by (intro exI [of _ "c # m"]) simp
  qed
qed

text \<open>A match moves the cursor forward over the text it consumes, which has at least
  \<open>minlen r\<close> characters; the text as a whole stays the same.\<close>

lemma rmatch_inv:
  "st' \<in> set (rmatch ic r st) \<Longrightarrow>
     \<exists>m. fst st' = rev m @ fst st \<and> fst (snd st) = m @ fst (snd st') \<and> minlen r \<le> length m"
proof (induction ic r st arbitrary: st' rule: rmatch.induct)
  case (1 ic s b a g)
  show ?case
  proof (cases "lit_match ic s b a")
    case None
    with "1.prems" show ?thesis by (simp add: rmatch.simps(1))
  next
    case (Some p)
    obtain b' a' where p: "p = (b', a')" by (cases p)
    with Some "1.prems" have "st' = (b', a', g)" by (simp add: rmatch.simps(1))
    with lit_match_inv [of ic s b a b' a'] Some p show ?thesis by auto
  qed
next
  case (2 ic items b a g)
  then show ?case by (auto simp: rmatch.simps(2) split: list.splits if_splits)
next
  case (3 ic r s b a g)
  from "3.prems" obtain st1 where st1: "st1 \<in> set (rmatch ic r (b, a, g))"
    and st': "st' \<in> set (rmatch ic s st1)"
    by (auto simp: rmatch.simps(3))
  from "3.IH"(1) [OF st1] obtain m1 where m1: "fst st1 = rev m1 @ b" "a = m1 @ fst (snd st1)"
    "minlen r \<le> length m1"
    by auto
  from "3.IH"(2) [OF st1 st'] obtain m2 where m2: "fst st' = rev m2 @ fst st1"
    "fst (snd st1) = m2 @ fst (snd st')" "minlen s \<le> length m2" by auto
  from m1 m2 show ?case by (intro exI [of _ "m1 @ m2"]) simp
next
  case (4 ic r s b a g)
  from "4.prems" have "st' \<in> set (rmatch ic r (b, a, g)) \<or> st' \<in> set (rmatch ic s (b, a, g))"
    by (simp add: rmatch.simps(4))
  then show ?case
  proof
    assume "st' \<in> set (rmatch ic r (b, a, g))"
    from "4.IH"(1) [OF this] show ?thesis by (auto simp: min_def)
  next
    assume "st' \<in> set (rmatch ic s (b, a, g))"
    from "4.IH"(2) [OF this] show ?thesis by (auto simp: min_def)
  qed
next
  case (5 ic lo hi r b a g)
  let ?more = "concat (map (rmatch ic (Rep (lo - 1) (map_option (\<lambda>h. h - 1) hi) r))
                       (filter (\<lambda>(b', a', g'). shorter a' a) (rmatch ic r (b, a, g))))"
  from "5.prems"
  have mem: "st' \<in> set ((if hi = Some 0 then [] else ?more) @ (if lo = 0 then [(b, a, g)] else []))"
    by (simp only: rmatch.simps(5))
  show ?case
  proof (cases "st' = (b, a, g) \<and> lo = 0")
    case True
    then show ?thesis by simp
  next
    case False
    with mem have hi: "hi \<noteq> Some 0" and "st' \<in> set ?more"
      by (auto split: if_splits)
    then obtain st1
      where f: "st1 \<in> set (filter (\<lambda>(b', a', g'). shorter a' a) (rmatch ic r (b, a, g)))"
        and st': "st' \<in> set (rmatch ic (Rep (lo - 1) (map_option (\<lambda>h. h - 1) hi) r) st1)"
      by auto
    from f have st1: "st1 \<in> set (rmatch ic r (b, a, g))" by simp
    from "5.IH"(1) [OF hi st1] obtain m1 where m1: "fst st1 = rev m1 @ b" "a = m1 @ fst (snd st1)"
      "minlen r \<le> length m1"
      by auto
    from "5.IH"(2) [OF hi f st'] obtain m2 where m2: "fst st' = rev m2 @ fst st1"
      "fst (snd st1) = m2 @ fst (snd st')" "(lo - 1) * minlen r \<le> length m2" by auto
    have "lo * minlen r \<le> length m1 + length m2"
    proof (cases lo)
      case 0
      then show ?thesis by simp
    next
      case (Suc k)
      with m1(3) m2(3) show ?thesis by simp
    qed
    with m1 m2 show ?thesis by (intro exI [of _ "m1 @ m2"]) simp
  qed
next
  case (6 ic b a g)
  then show ?case by (auto simp: rmatch.simps(6) split: if_splits)
next
  case (7 ic b a g)
  then show ?case by (auto simp: rmatch.simps(7) split: if_splits)
next
  case (8 ic items b a g)
  then show ?case by (auto simp: rmatch.simps(8) split: list.splits if_splits)
next
  case (9 ic items b a g)
  then show ?case by (auto simp: rmatch.simps(9) split: list.splits if_splits)
next
  case (10 ic n r b a g)
  from "10.prems" obtain st1 where st1: "st1 \<in> set (rmatch ic r (b, a, g))"
    and "fst st' = fst st1" "fst (snd st') = fst (snd st1)"
    by (auto simp: rmatch.simps(10))
  with "10.IH" [OF st1] show ?case by auto
qed

text \<open>A pattern without groups leaves the captured groups as they are.\<close>

lemma rmatch_group_free:
  "st' \<in> set (rmatch ic r st) \<Longrightarrow> group_free r \<Longrightarrow> snd (snd st') = snd (snd st)"
proof (induction ic r st arbitrary: st' rule: rmatch.induct)
  case (1 ic s b a g)
  then show ?case by (auto simp: rmatch.simps(1) split: option.splits)
next
  case (2 ic items b a g)
  then show ?case by (auto simp: rmatch.simps(2) split: list.splits if_splits)
next
  case (3 ic r s b a g)
  from "3.prems" obtain st1 where st1: "st1 \<in> set (rmatch ic r (b, a, g))"
    and st': "st' \<in> set (rmatch ic s st1)"
    by (auto simp: rmatch.simps(3))
  from "3.IH"(1) [OF st1] "3.IH"(2) [OF st1 st'] "3.prems"(2) show ?case by simp
next
  case (4 ic r s b a g)
  from "4.prems" have "st' \<in> set (rmatch ic r (b, a, g)) \<or> st' \<in> set (rmatch ic s (b, a, g))"
    by (simp add: rmatch.simps(4))
  then show ?case
  proof
    assume "st' \<in> set (rmatch ic r (b, a, g))"
    from "4.IH"(1) [OF this] "4.prems"(2) show ?thesis by simp
  next
    assume "st' \<in> set (rmatch ic s (b, a, g))"
    from "4.IH"(2) [OF this] "4.prems"(2) show ?thesis by simp
  qed
next
  case (5 ic lo hi r b a g)
  let ?more = "concat (map (rmatch ic (Rep (lo - 1) (map_option (\<lambda>h. h - 1) hi) r))
                       (filter (\<lambda>(b', a', g'). shorter a' a) (rmatch ic r (b, a, g))))"
  from "5.prems"
  have mem: "st' \<in> set ((if hi = Some 0 then [] else ?more) @ (if lo = 0 then [(b, a, g)] else []))"
    by (simp only: rmatch.simps(5))
  show ?case
  proof (cases "st' = (b, a, g) \<and> lo = 0")
    case True
    then show ?thesis by simp
  next
    case False
    with mem have hi: "hi \<noteq> Some 0" and "st' \<in> set ?more"
      by (auto split: if_splits)
    then obtain st1
      where f: "st1 \<in> set (filter (\<lambda>(b', a', g'). shorter a' a) (rmatch ic r (b, a, g)))"
        and st': "st' \<in> set (rmatch ic (Rep (lo - 1) (map_option (\<lambda>h. h - 1) hi) r) st1)"
      by auto
    from f have st1: "st1 \<in> set (rmatch ic r (b, a, g))" by simp
    from "5.prems"(2) have gf: "group_free r" by simp
    from "5.IH"(1) [OF hi st1 gf] "5.IH"(2) [OF hi f st'] gf show ?thesis by simp
  qed
next
  case (6 ic b a g)
  then show ?case by (auto simp: rmatch.simps(6) split: if_splits)
next
  case (7 ic b a g)
  then show ?case by (auto simp: rmatch.simps(7) split: if_splits)
next
  case (8 ic items b a g)
  then show ?case by (auto simp: rmatch.simps(8) split: list.splits if_splits)
next
  case (9 ic items b a g)
  then show ?case by (auto simp: rmatch.simps(9) split: list.splits if_splits)
next
  case (10 ic n r b a g)
  then show ?case by simp
qed

text \<open>The scan starts a match somewhere in the text after the cursor, without groups.\<close>

lemma scan_inv:
  "scan ic r b a = Some (s, e) \<Longrightarrow>
     \<exists>p as. a = p @ as \<and> s = (rev p @ b, as, []) \<and> e \<in> set (rmatch ic r s)"
proof (induction a arbitrary: b)
  case Nil
  then show ?case by (auto split: list.splits)
next
  case (Cons c a)
  show ?case
  proof (cases "rmatch ic r (b, c # a, [])")
    case Nil
    with Cons.prems have "scan ic r (c # b) a = Some (s, e)" by simp
    from Cons.IH [OF this] obtain p as where "a = p @ as" "s = (rev p @ c # b, as, [])"
      "e \<in> set (rmatch ic r s)" by blast
    then show ?thesis by (intro exI [of _ "c # p"] exI [of _ as]) simp
  next
    case (Cons e' es)
    with Cons.prems have "s = (b, c # a, [])" "e = e'" by auto
    with Cons show ?thesis by (intro exI [of _ "[]"] exI [of _ "c # a"]) simp
  qed
qed

lemma scan_None:
  "scan ic r b a = None \<Longrightarrow> rmatch ic r (b, a, []) = []"
  by (cases a) (auto split: list.splits)

text \<open>Every match of \<^verbatim>\<open>finditer\<close> is a match of the pattern at a position of the text.\<close>

lemma finditer_from_inv:
  "m \<in> set (finditer_from ic r b a) \<Longrightarrow>
     \<exists>p as. a = p @ as \<and> fst m = (rev p @ b, as, []) \<and> snd m \<in> set (rmatch ic r (fst m))"
proof (induction "length a" arbitrary: a b m rule: less_induct)
  case less
  show ?case
  proof (cases "scan ic r b a")
    case None
    with less.prems show ?thesis by (simp add: finditer_from.simps [of ic r b a])
  next
    case (Some se)
    obtain bs as gs b' a' g' where se: "se = ((bs, as, gs), (b', a', g'))"
      by (cases se) auto
    from scan_inv [of ic r b a "(bs, as, gs)" "(b', a', g')"] Some se
    obtain p where p: "a = p @ as" "bs = rev p @ b" "gs = []"
      and e: "(b', a', g') \<in> set (rmatch ic r (bs, as, gs))" by auto
    from rmatch_inv [OF e] obtain mt where mt: "b' = rev mt @ bs" "as = mt @ a'" by auto
    from less.prems Some se
    have "m = ((bs, as, gs), (b', a', g')) \<or>
          (shorter a' as \<and> m \<in> set (finditer_from ic r b' a')) \<or>
          (\<not> shorter a' as \<and> (\<exists>c cs. as = c # cs \<and> m \<in> set (finditer_from ic r (c # bs) cs)))"
      by (subst (asm) finditer_from.simps) (auto split: if_splits list.splits)
    then show ?thesis
    proof (elim disjE conjE exE)
      assume "m = ((bs, as, gs), (b', a', g'))"
      with p e show ?thesis by auto
    next
      assume sh: "shorter a' as" and m: "m \<in> set (finditer_from ic r b' a')"
      from shorter_length [OF sh] p have "length a' < length a" by simp
      from less.hyps [OF this m]
      obtain p2 as2 where "a' = p2 @ as2" "fst m = (rev p2 @ b', as2, [])"
        "snd m \<in> set (rmatch ic r (fst m))" by auto
      with p mt show ?thesis by (intro exI [of _ "p @ mt @ p2"] exI [of _ as2]) simp
    next
      fix c cs
      assume as: "as = c # cs" and m: "m \<in> set (finditer_from ic r (c # bs) cs)"
      from as p have "length cs < length a" by simp
      from less.hyps [OF this m]
      obtain p2 as2 where "cs = p2 @ as2" "fst m = (rev p2 @ c # bs, as2, [])"
        "snd m \<in> set (rmatch ic r (fst m))" by auto
      with p as show ?thesis by (intro exI [of _ "p @ c # p2"] exI [of _ as2]) simp
    qed
  qed
qed

text \<open>The text of a match is a piece of the searched text of at least \<open>minlen r\<close>
  characters.\<close>

lemma group0_of_match:
  assumes "fst m = (rev p, as, [])" and "snd m \<in> set (rmatch ic r (fst m))"
  shows "\<exists>post. as = m_group0 m @ post \<and> minlen r \<le> length (m_group0 m)"
proof -
  from rmatch_inv [OF assms(2)] assms(1) obtain mt
    where mt: "fst (snd m) = rev mt @ rev p" "as = mt @ fst (snd (snd m))" "minlen r \<le> length mt"
    by auto
  from mt(1) assms(1) have "m_group0 m = mt" by (simp add: m_group0_def)
  with mt show ?thesis by auto
qed

lemma re_search_group0:
  assumes "re_search ic r s = Some m"
  shows "\<exists>pre post. s = pre @ m_group0 m @ post \<and> minlen r \<le> length (m_group0 m)"
proof -
  from assms scan_inv [of ic r "[]" s "fst m" "snd m"]
  obtain p as where p: "s = p @ as" "fst m = (rev p, as, [])" "snd m \<in> set (rmatch ic r (fst m))"
    by (auto simp: re_search_def)
  from group0_of_match [OF p(2,3)] p(1) show ?thesis by auto
qed

lemma re_findall0_substring:
  assumes "x \<in> set (re_findall0 ic r s)"
  shows "\<exists>pre post. s = pre @ x @ post"
proof -
  from assms obtain m where m: "m \<in> set (finditer_from ic r [] s)" and x: "x = m_group0 m"
    by (auto simp: re_findall0_def re_finditer_def)
  from finditer_from_inv [OF m]
  obtain p as where p: "s = p @ as" "fst m = (rev p, as, [])" "snd m \<in> set (rmatch ic r (fst m))"
    by auto
  from group0_of_match [OF p(2,3)] p(1) x show ?thesis by auto
qed

section \<open>Properties of the program\<close>

subsection \<open>extract_work_experiences_v2\<close>

lemma first_date_match_None_iff:
  "first_date_match ps line = None \<longleftrightarrow> (\<forall>p \<in> set ps. re_search True p line = None)"
  by (induction ps) (auto split: option.splits)

lemma first_date_match_Some:
  "first_date_match ps line = Some d \<Longrightarrow>
     \<exists>i < length ps. (\<exists>m. re_search True (ps ! i) line = Some m \<and> d = m_group0 m) \<and>
        (\<forall>j < i. re_search True (ps ! j) line = None)"
proof (induction ps)
  case Nil
  then show ?case by simp
next
  case (Cons p ps)
  show ?case
  proof (cases "re_search True p line")
    case None
    with Cons.prems have "first_date_match ps line = Some d" by simp
    from Cons.IH [OF this] obtain i m where i: "i < length ps" "re_search True (ps ! i) line = Some m"
      "d = m_group0 m" "\<forall>j < i. re_search True (ps ! j) line = None" by blast
    have "\<forall>j < Suc i. re_search True ((p # ps) ! j) line = None"
    proof (intro allI impI)
      fix j assume "j < Suc i"
      with i(4) None show "re_search True ((p # ps) ! j) line = None" by (cases j) auto
    qed
    with i show ?thesis by (intro exI [of _ "Suc i"]) auto
  next
    case (Some m)
    with Cons.prems show ?thesis by (intro exI [of _ 0]) auto
  qed
qed

lemma find_date_positions_dates:
  "map snd (find_date_positions i lines) =
     map (\<lambda>line. the (first_date_match date_patterns line))
         (filter (\<lambda>line. first_date_match date_patterns line \<noteq> None) lines)"
  by (induction lines arbitrary: i) (auto split: option.splits)

lemma find_date_positions_index:
  "(j, d) \<in> set (find_date_positions i lines) \<Longrightarrow> i \<le> j \<and> j < i + length lines"
proof (induction lines arbitrary: i)
  case Nil
  then show ?case by simp
next
  case (Cons line lines)
  from Cons.prems have "(j = i) \<or> (j, d) \<in> set (find_date_positions (Suc i) lines)"
    by (auto split: option.splits)
  with Cons.IH [of "Suc i"] show ?case by auto
qed

lemma build_entries_dates: "map date (build_entries lines dps) = map snd dps"
  by (induction dps) (auto simp: build_entry_def Let_def)

lemma collect_Inr_length: "collect xs = Inr vs \<Longrightarrow> length vs = length xs"
  by (induction xs arbitrary: vs) (auto split: sum.splits)

lemma collect_map_Inr:
  "(\<And>x. x \<in> set xs \<Longrightarrow> f x = Inr (h x)) \<Longrightarrow> collect (map f xs) = Inr (map h xs)"
  by (induction xs) auto

lemma century_match:
  assumes "st' \<in> set (rmatch False century (b, a, g))"
  shows "(fst st' = rev ''19'' @ b \<or> fst st' = rev ''20'' @ b) \<and> snd (snd st') = g"
proof -
  have lit: "fst st' = rev w @ b \<and> snd (snd st') = g" if "st' \<in> set (rmatch False (Lit w) (b, a, g))" for w
  proof -
    from that obtain p where p: "lit_match False w b a = Some p" and "st' = (fst p, snd p, g)"
      by (cases "lit_match False w b a") (auto simp: rmatch.simps(1))
    then obtain b' a' where l: "lit_match False w b a = Some (b', a')" and st': "st' = (b', a', g)"
      by (cases p) auto
    from lit_match_inv [OF l] obtain m where "b' = rev m @ b" "list_all2 (ceq False) w m" by blast
    then have "b' = rev w @ b" by (simp add: list_all2_eq [symmetric] fun_eq_iff [symmetric] cong: list.rel_cong)
    with st' show ?thesis by simp
  qed
  from assms have "st' \<in> set (rmatch False (Lit ''19'') (b, a, g)) \<or> st' \<in> set (rmatch False (Lit ''20'') (b, a, g))"
    by (simp add: century_def rmatch.simps(4))
  with lit show ?thesis by blast
qed

lemma year_pattern_group:
  assumes "e \<in> set (rmatch False year_pattern (b, a, []))"
  shows "m_group (s, e) 1 = ''19'' \<or> m_group (s, e) 1 = ''20''"
proof -
  from assms obtain st1 where st1: "st1 \<in> set (rmatch False (Grp 1 century) (b, a, []))"
    and e: "e \<in> set (rmatch False (times 2 dg) st1)"
    by (auto simp: year_pattern_def rmatch.simps(3))
  from st1 obtain st0 where st0: "st0 \<in> set (rmatch False century (b, a, []))"
    and g1: "snd (snd st1) = (1, consumed b (fst st0)) # snd (snd st0)"
    by (auto simp: rmatch.simps(10))
  from century_match [OF st0] g1
  have "snd (snd st1) = [(1, ''19'')] \<or> snd (snd st1) = [(1, ''20'')]"
    by (auto simp: consumed_def)
  moreover from rmatch_group_free [OF e] have "snd (snd e) = snd (snd st1)"
    by (simp add: times_def dg_def)
  ultimately show ?thesis by (auto simp: m_group_def)
qed

lemma year_findall:
  assumes "y \<in> set (re_findall1 False year_pattern d)"
  shows "y = ''19'' \<or> y = ''20''"
proof -
  from assms obtain m where m: "m \<in> set (finditer_from False year_pattern [] d)" and y: "y = m_group m 1"
    by (auto simp: re_findall1_def re_finditer_def)
  from finditer_from_inv [OF m] obtain p as where "fst m = (rev p @ [], as, [])"
    "snd m \<in> set (rmatch False year_pattern (fst m))" by blast
  with year_pattern_group [of "snd m" "rev p @ []" as "fst m"] y show ?thesis by (cases m) simp
qed

text \<open>The sort key is well defined, and it is 0, 19 or 20: the century of a year in the date,
  not the year.\<close>

lemma fold_max_century:
  "k \<in> {19, 20 :: nat} \<Longrightarrow> set ks \<subseteq> {19, 20} \<Longrightarrow> fold max ks k \<in> {19, 20}"
  by (induction ks arbitrary: k) (auto simp: max_def)

lemma extract_year_values: "extract_year d \<in> {Inr 0, Inr 19, Inr 20}"
proof -
  let ?ys = "re_findall1 False year_pattern d"
  let ?h = "\<lambda>y. if y = ''19'' then 19 else (20::nat)"
  have "py_int y = Inr (?h y)" if "y \<in> set ?ys" for y
    using year_findall [OF that] by (auto simp: py_int_century)
  then have c: "collect (map py_int ?ys) = Inr (map ?h ?ys)" by (rule collect_map_Inr)
  show ?thesis
  proof (cases "map ?h ?ys")
    case Nil
    with c show ?thesis by (simp add: extract_year_def)
  next
    case (Cons k ks)
    have "set (map ?h ?ys) \<subseteq> {19, 20}" by auto
    with Cons have "k \<in> {19, 20}" "set ks \<subseteq> {19, 20}" by simp_all
    from fold_max_century [OF this] c Cons show ?thesis by (auto simp: extract_year_def)
  qed
qed

lemma extract_year_total: "\<exists>n. extract_year d = Inr n"
  using extract_year_values [of d] by auto

lemma sort_newest_first_total:
  "\<exists>jobs'. sort_newest_first jobs = Inr jobs' \<and> mset jobs' = mset jobs"
proof -
  have "\<And>x. x \<in> set jobs \<Longrightarrow> extract_year (date x) = Inr (projr (extract_year (date x)))"
    using extract_year_total by (metis sum.sel(2))
  then have c: "collect (map (\<lambda>x. extract_year (date x)) jobs) = Inr (map (\<lambda>x. projr (extract_year (date x))) jobs)"
    by (rule collect_map_Inr)
  let ?keys = "map (\<lambda>x. projr (extract_year (date x))) jobs"
  have z: "map snd (zip ?keys jobs) = jobs" by (simp add: map_snd_zip)
  have "image_mset snd (mset (zip ?keys jobs)) = mset jobs"
    by (simp only: mset_map [symmetric] z)
  then have "mset (map snd (rev (sort_key fst (rev (zip ?keys jobs))))) = mset jobs"
    by simp
  with c show ?thesis by (simp add: sort_newest_first_def)
qed

lemma date_patterns_minlen: "p \<in> set date_patterns \<Longrightarrow> 8 \<le> minlen p"
  by (auto simp: date_patterns_def months_en_def months_es_def abbr_en_def abbr_es_def
      range_sep_def present_en_def present_es_def century_def star_def plus1_def times_def
      ws_def dg_def)

lemma first_date_match_not_Unknown:
  assumes "first_date_match date_patterns line = Some d"
  shows "d \<noteq> ''Unknown''"
proof -
  from first_date_match_Some [OF assms] obtain i m where i: "i < length date_patterns"
    and m: "re_search True (date_patterns ! i) line = Some m" and d: "d = m_group0 m" by blast
  from re_search_group0 [OF m] d have "minlen (date_patterns ! i) \<le> length d" by auto
  moreover from i have "8 \<le> minlen (date_patterns ! i)" by (intro date_patterns_minlen) simp
  ultimately show ?thesis by auto
qed

lemma find_date_positions_Nil_iff:
  "find_date_positions i lines = [] \<longleftrightarrow> (\<forall>line \<in> set lines. first_date_match date_patterns line = None)"
  by (induction lines arbitrary: i) (auto split: option.splits)

lemma first_date_match_matches:
  "(first_date_match date_patterns line \<noteq> None) = (\<exists>pattern \<in> set date_patterns. re_search True pattern line \<noteq> None)"
  using first_date_match_None_iff [of date_patterns line] by auto

subsection \<open>identify_sections\<close>

lemma fill_sections_spans:
  "fill_sections text bs m =
     fold (\<lambda>(kind, span) sections. sections(kind \<mapsto> strip span))
          (zip (map (\<lambda>b. fst (snd b)) bs) (boundary_spans text (map fst bs))) m"
proof (induction bs arbitrary: m)
  case Nil
  then show ?case by simp
next
  case (Cons b bs)
  obtain p k t where b: "b = (p, k, t)" by (cases b)
  have "(case bs of [] \<Rightarrow> length text | (next_pos, next_type, next_title) # x \<Rightarrow> next_pos) =
        (case map fst bs of [] \<Rightarrow> length text | q # x \<Rightarrow> q)"
    by (cases bs) auto
  with Cons.IH show ?case by (simp add: b)
qed

lemma concat_boundary_spans:
  "sorted ps \<Longrightarrow> ps \<noteq> [] \<Longrightarrow> concat (boundary_spans text ps) = drop (hd ps) text"
proof (induction ps)
  case Nil
  then show ?case by simp
next
  case (Cons p ps)
  show ?case
  proof (cases ps)
    case Nil
    then show ?thesis by (simp add: slice_def)
  next
    case (Cons q qs)
    with Cons.prems Cons.IH have ih: "concat (boundary_spans text ps) = drop q text" and pq: "p \<le> q"
      by auto
    have "slice text p q @ drop q text = take (q - p) (drop p text) @ drop (q - p) (drop p text)"
      using pq by (simp add: slice_def)
    also have "\<dots> = drop p text" by (rule append_take_drop_id)
    finally show ?thesis using ih Cons by simp
  qed
qed

lemma boundary_spans_nth:
  "i < length ps \<Longrightarrow>
     boundary_spans text ps ! i =
       slice text (ps ! i) (if Suc i < length ps then ps ! Suc i else length text)"
proof (induction ps arbitrary: i)
  case Nil
  then show ?case by simp
next
  case (Cons p ps)
  show ?case
  proof (cases i)
    case 0
    then show ?thesis by (cases ps) auto
  next
    case (Suc j)
    with Cons show ?thesis by simp
  qed
qed

lemma length_boundary_spans [simp]: "length (boundary_spans text ps) = length ps"
  by (induction ps) auto

lemma sorted_offsets: "sorted (map fst (sort (bs :: (nat \<times> string \<times> string) list)))"
proof -
  have "sorted_wrt (\<lambda>x y. fst x \<le> fst y) (sort bs)"
    by (rule sorted_wrt_mono_rel [of _ "(\<le>)"]) (auto simp: less_eq_prod_def)
  then show ?thesis by (simp add: sorted_wrt_map)
qed

lemma fill_sections_other:
  "kind \<notin> (\<lambda>b. fst (snd b)) ` set bs \<Longrightarrow> fill_sections text bs m kind = m kind"
proof (induction bs arbitrary: m)
  case Nil
  then show ?case by simp
next
  case (Cons b bs)
  obtain p k t where b: "b = (p, k, t)" by (cases b)
  with Cons show ?case by auto
qed

lemma fill_sections_last:
  "kind \<notin> (\<lambda>b. fst (snd b)) ` set post \<Longrightarrow>
     fill_sections text (pre @ (p, kind, t) # post) m kind =
       Some (strip (slice text p (case post of [] \<Rightarrow> length text | (q, k', t') # _ \<Rightarrow> q)))"
proof (induction pre arbitrary: m)
  case Nil
  then show ?case by (simp add: fill_sections_other)
next
  case (Cons b pre)
  obtain p' k' t' where b: "b = (p', k', t')" by (cases b)
  with Cons show ?case by simp
qed

subsection \<open>extract_skills\<close>

lemma fold_union:
  "fold (\<lambda>pattern skills. skills \<union> set (f pattern)) ps S = S \<union> (\<Union>p \<in> set ps. set (f p))"
  by (induction ps arbitrary: S) auto

lemma extract_skills_union:
  "extract_skills text = (\<Union>p \<in> set skill_patterns. set (re_findall0 True p text))"
  by (simp add: extract_skills_def fold_union)

lemma extract_skills_substring:
  "entry \<in> extract_skills text \<Longrightarrow> \<exists>pre post. text = pre @ entry @ post"
  by (auto simp: extract_skills_union dest: re_findall0_substring)

subsection \<open>Evaluation at the inputs of the claims\<close>

lemma py_int_years:
  "py_int ''2015'' = Inr 2015" "py_int ''2016'' = Inr 2016" "py_int ''2019'' = Inr 2019"
  "py_int ''2020'' = Inr 2020"
  by (simp_all add: py_int_def py_isdecimal_def cp_def)

lemmas edu_simps = education_entry.select_convs spec_max_year_def spec_year_pattern_def py_int_years

lemma extract_skills_lists:
  "extract_skills text = set (concat (map (\<lambda>p. re_findall0 True p text) skill_patterns))"
  by (simp add: extract_skills_union)

lemma skills_python_eval:
  "map (\<lambda>p. re_findall0 True p ''Python python'') skill_patterns = [[''Python'', ''python''], [], [], [], []]"
  by (simp only: engine_simps data_simps program_simps
        cong: if_weak_cong option.case_cong_weak list.case_cong_weak sum.case_cong_weak)

subsection \<open>extract_name and the section keys\<close>

lemma strip_Nil [simp]: "strip [] = []"
  by (simp add: strip_def)

lemma name_like_nonempty: "name_like line \<Longrightarrow> line \<noteq> []"
  by (auto simp: name_like_def)

lemma extract_name_find:
  "extract_name text = map_option strip (find name_like (take 3 (split_on newline text)))"
proof -
  have "(\<lambda>line. line \<noteq> [] \<and> length (split_ws (strip line)) \<le> 4 \<and> 3 < length (strip line)) = name_like"
    by (auto simp: name_like_def fun_eq_iff)
  then show ?thesis by (simp add: extract_name_def split: option.splits)
qed

lemma dom_fill_sections:
  "dom (fill_sections text bs m) = dom m \<union> (\<lambda>b. fst (snd b)) ` set bs"
proof (induction bs arbitrary: m)
  case Nil
  then show ?case by simp
next
  case (Cons b bs)
  obtain p k t where b: "b = (p, k, t)" by (cases b)
  show ?case unfolding b fill_sections.simps Cons.IH by auto
qed

lemma section_positions_kind:
  "b \<in> set (section_positions text) \<Longrightarrow> fst (snd b) \<in> fst ` set section_patterns"
  by (force simp: section_positions_def)

lemma section_pattern_kinds: "map fst section_patterns = section_kinds"
  by (simp add: section_patterns_def section_kinds_def)

lemma dom_identify_sections:
  "dom (identify_sections text) = (\<lambda>b. fst (snd b)) ` set (section_positions text)"
  by (simp add: identify_sections_def dom_fill_sections)

lemma dom_identify_sections_kinds: "dom (identify_sections text) \<subseteq> set section_kinds"
proof
  fix k
  assume "k \<in> dom (identify_sections text)"
  then obtain b where "b \<in> set (section_positions text)" "k = fst (snd b)"
    by (auto simp: dom_identify_sections)
  with section_positions_kind [of b "text"] have "k \<in> set (map fst section_patterns)" by simp
  then show "k \<in> set section_kinds" by (simp only: section_pattern_kinds)
qed

lemma page_key_not_kind: "page_key i \<notin> set section_kinds"
  by (auto simp: page_key_def section_kinds_def)

lemma dom_fold_pages:
  "dom (fold (\<lambda>(i, page_text) m. m(page_key i \<mapsto> page_text)) (enumerate k ps) m) =
     dom m \<union> page_key ` {k ..< k + length ps}"
proof (induction ps arbitrary: k m)
  case Nil
  then show ?case by simp
next
  case (Cons p ps)
  have "{k ..< k + length (p # ps)} = insert k {Suc k ..< Suc k + length ps}" by auto
  with Cons show ?case by (auto split: if_splits)
qed

section \<open>The claims\<close>

text \<open>
  Claim C1, as amended.  For the example text of the specification preceded by an
  \<^verbatim>\<open>Experience\<close> header line, \<^verbatim>\<open>extract_work_experiences_v2\<close> returns exactly two
  entries, the one dated \<^verbatim>\<open>January 2019 - Present\<close> before the one dated
  \<^verbatim>\<open>June 2015 - December 2018\<close>, with the titles \<^verbatim>\<open>Acme Corp\<close> and \<^verbatim>\<open>Beta Inc\<close>,
  neither of which is the placeholder \<^verbatim>\<open>Unknown\<close>.
\<close>

theorem example_with_experience_header:
  "extract_work_experiences_v2
     ''Experience\<newline>Jane Smith\<newline>Acme Corp\<newline>Senior Engineer\<newline>January 2019 - Present\<newline>Built systems.\<newline>\<newline>Beta Inc\<newline>Analyst\<newline>June 2015 - December 2018\<newline>Analyzed data.''
   = Inr [\<lparr>company = ''Senior Engineer'', title = ''Acme Corp'', date = ''January 2019 - Present'',
            description = ''January 2019 - Present\<newline>Built systems.\<newline>\<newline>Beta Inc\<newline>Analyst''\<rparr>,
          \<lparr>company = ''Analyst'', title = ''Beta Inc'', date = ''June 2015 - December 2018'',
            description = ''June 2015 - December 2018\<newline>Analyzed data.''\<rparr>]"
  by (simp only: engine_simps data_simps program_simps sort_simps v2_simps edu_simps
        cong: if_weak_cong option.case_cong_weak list.case_cong_weak sum.case_cong_weak)

text \<open>The example text as the specification gives it has no experience header: no
  section is located and the result is the empty list.\<close>

theorem example_without_header_counterexample:
  "extract_work_experiences_v2
     ''Jane Smith\<newline>Acme Corp\<newline>Senior Engineer\<newline>January 2019 - Present\<newline>Built systems.\<newline>\<newline>Beta Inc\<newline>Analyst\<newline>June 2015 - December 2018\<newline>Analyzed data.''
   = Inr []"
  by (simp only: engine_simps data_simps program_simps sort_simps v2_simps edu_simps
        cong: if_weak_cong option.case_cong_weak list.case_cong_weak sum.case_cong_weak)

text \<open>
  Claim C2 does not hold of the code.  On an experience section that lists a job of
  2015 - 2016 before a job of 2019 - 2020 the result keeps that order: the key that
  \<^verbatim>\<open>extract_year\<close> computes is 20 for both dates, the text of the group \<^verbatim>\<open>(19|20)\<close>,
  while the greatest four-digit years of the two dates are 2016 and 2020.
\<close>

theorem sort_key_is_the_century:
  "extract_work_experiences_v2 ''Experience\<newline>Acme\<newline>2015 - 2016\<newline>Beta\<newline>2019 - 2020''
     = Inr [\<lparr>company = ''Acme'', title = ''Beta'', date = ''2015 - 2016'', description = ''2015 - 2016''\<rparr>,
            \<lparr>company = ''Beta'', title = ''2015 - 2016'', date = ''2019 - 2020'', description = ''2019 - 2020''\<rparr>]
   \<and> extract_year ''2015 - 2016'' = Inr 20 \<and> extract_year ''2019 - 2020'' = Inr 20
   \<and> spec_max_year ''2015 - 2016'' = 2016 \<and> spec_max_year ''2019 - 2020'' = 2020"
  by (simp only: engine_simps data_simps program_simps sort_simps v2_simps edu_simps
        cong: if_weak_cong option.case_cong_weak list.case_cong_weak sum.case_cong_weak)

text \<open>
  Claim C3 does not hold of the code.  On the education paragraph of the specification
  \<^verbatim>\<open>extract_education\<close> returns no entry: it segments its argument again and reads only
  the body below an \<^verbatim>\<open>Education\<close> header of it, whereas \<^verbatim>\<open>extract_structured_info\<close> passes
  it the body that \<^verbatim>\<open>identify_sections\<close> has already cut out, so that a text made of the
  header and the paragraph gets no entry either.  Given the header and the paragraph
  itself, the function builds the entry with the degree and the institution, and with the
  date \<^verbatim>\<open>20-2017\<close>: the texts of the two groups of the date pattern, not the two years.
\<close>

theorem education_paragraph_yields_no_entry:
  "extract_education ''Master of Science in Computing, Tech University, 2015-2017'' = []
   \<and> identify_sections ''Education\<newline>Master of Science in Computing, Tech University, 2015-2017'' ''education''
       = Some ''Master of Science in Computing, Tech University, 2015-2017''
   \<and> structured_education ''Education\<newline>Master of Science in Computing, Tech University, 2015-2017'' = []
   \<and> extract_education ''Education\<newline>Master of Science in Computing, Tech University, 2015-2017''
       = [\<lparr>degree = ''Master of Science'', institution = ''Tech University'', edu_date = ''20-2017''\<rparr>]"
  by (simp only: engine_simps data_simps program_simps sort_simps edu_simps
        cong: if_weak_cong option.case_cong_weak list.case_cong_weak sum.case_cong_weak)

text \<open>
  Claim C4, as amended.  Every entry of the set that \<^verbatim>\<open>extract_skills\<close> returns is a piece
  of the text in the casing in which it occurs there: the patterns match without regard
  to case, and nothing folds the case of a match.  The set has no duplicates, but case
  variants of a skill are different entries: for \<^verbatim>\<open>Python python\<close> the set holds both.
\<close>

theorem skills_keep_matched_casing:
  "(entry \<in> extract_skills text \<longrightarrow> (\<exists>pre post. text = pre @ entry @ post))
   \<and> extract_skills ''Python python'' = {''Python'', ''python''}"
  using extract_skills_substring [of entry "text"]
  by (simp add: extract_skills_lists skills_python_eval)

theorem skills_keep_matched_casing_witness:
  "''python'' \<in> extract_skills ''Python python''
   \<and> (\<exists>pre post. ''Python python'' = pre @ ''python'' @ post)"
proof -
  have "''python'' \<in> extract_skills ''Python python''"
    by (simp add: extract_skills_lists skills_python_eval)
  with skills_keep_matched_casing [of "''python''" "''Python python''"] show ?thesis by blast
qed

text \<open>The two case variants give two entries, not one.\<close>

theorem skills_case_variants_counterexample:
  "extract_skills ''Python python'' = {''Python'', ''python''} \<and> card (extract_skills ''Python python'') = 2"
  by (simp add: extract_skills_lists skills_python_eval)

text \<open>
  Claim C5.  When no line of the located experience section matches a date pattern of
  \<^verbatim>\<open>date_patterns\<close> (in particular when no experience section is located),
  \<^verbatim>\<open>extract_work_experiences_v2\<close> returns the empty list, as a normal result
  (\<open>Inr\<close>) and not an exception.
\<close>

theorem no_date_line_no_entry:
  assumes "\<forall>experience_section. locate_experience_section text = Some experience_section \<longrightarrow>
             (\<forall>line \<in> set (split_on newline experience_section). \<forall>pattern \<in> set date_patterns.
                re_search True pattern line = None)"
  shows "extract_work_experiences_v2 text = Inr []"
proof (cases "locate_experience_section text")
  case None
  then show ?thesis by (simp add: extract_work_experiences_v2_def)
next
  case (Some experience_section)
  with assms have "\<forall>line \<in> set (split_on newline experience_section).
      first_date_match date_patterns line = None"
    by (simp add: first_date_match_None_iff)
  then have "find_date_positions 0 (split_on newline experience_section) = []"
    by (simp add: find_date_positions_Nil_iff)
  with Some show ?thesis by (simp add: extract_work_experiences_v2_def)
qed

theorem no_date_line_no_entry_witness:
  "locate_experience_section ''Experience\<newline>Acme Corp\<newline>Built systems.'' = Some ''Acme Corp\<newline>Built systems.''
   \<and> extract_work_experiences_v2 ''Experience\<newline>Acme Corp\<newline>Built systems.'' = Inr []"
proof -
  have loc: "locate_experience_section ''Experience\<newline>Acme Corp\<newline>Built systems.'' = Some ''Acme Corp\<newline>Built systems.''"
    by (simp only: engine_simps data_simps program_simps sort_simps
          cong: if_weak_cong option.case_cong_weak list.case_cong_weak sum.case_cong_weak)
  have lines: "split_on newline ''Acme Corp\<newline>Built systems.'' = [''Acme Corp'', ''Built systems.'']"
    by (simp only: engine_simps data_simps program_simps
          cong: if_weak_cong option.case_cong_weak list.case_cong_weak sum.case_cong_weak)
  have none: "first_date_match date_patterns ''Acme Corp'' = None"
    "first_date_match date_patterns ''Built systems.'' = None"
    by (simp_all only: engine_simps data_simps program_simps
          cong: if_weak_cong option.case_cong_weak list.case_cong_weak sum.case_cong_weak)
  from none have n: "\<forall>pattern \<in> set date_patterns. re_search True pattern ''Acme Corp'' = None"
    "\<forall>pattern \<in> set date_patterns. re_search True pattern ''Built systems.'' = None"
    by (simp_all only: first_date_match_None_iff)
  have "\<forall>experience_section.
          locate_experience_section ''Experience\<newline>Acme Corp\<newline>Built systems.'' = Some experience_section \<longrightarrow>
          (\<forall>line \<in> set (split_on newline experience_section). \<forall>pattern \<in> set date_patterns.
             re_search True pattern line = None)"
  proof (intro allI impI ballI)
    fix experience_section line pattern
    assume "locate_experience_section ''Experience\<newline>Acme Corp\<newline>Built systems.'' = Some experience_section"
      and l: "line \<in> set (split_on newline experience_section)" and p: "pattern \<in> set date_patterns"
    with loc have "experience_section = ''Acme Corp\<newline>Built systems.''" by (simp only: option.inject)
    with l have "line \<in> set [''Acme Corp'', ''Built systems.'']" by (simp only: lines)
    then have "line = ''Acme Corp'' \<or> line = ''Built systems.''" by (simp only: list.set insert_iff empty_iff simp_thms)
    then show "re_search True pattern line = None"
    proof
      assume "line = ''Acme Corp''"
      with bspec [OF n(1) p] show ?thesis by (simp only:)
    next
      assume "line = ''Built systems.''"
      with bspec [OF n(2) p] show ?thesis by (simp only:)
    qed
  qed
  from no_date_line_no_entry [OF this] show ?thesis by (simp only: loc simp_thms)
qed

text \<open>
  Claim C6, as amended.  When there is a boundary, the spans that the second loop slices
  out of the text, from each boundary offset to the next one in the sorted order and
  from the last offset to the end of the text, follow one another without overlap and
  together are the text from the first offset on; the mapping returned holds the
  stripped spans, a later span of a kind replacing an earlier one.
\<close>

theorem section_spans_partition:
  assumes "section_positions text \<noteq> []"
  shows "let boundaries = sort (section_positions text);
             offsets = map fst boundaries;
             spans = boundary_spans text offsets
         in sorted offsets \<and> length spans = length boundaries \<and>
            (\<forall>i < length boundaries.
               spans ! i = slice text (offsets ! i)
                             (if Suc i < length boundaries then offsets ! Suc i else length text)) \<and>
            concat spans = drop (hd offsets) text \<and>
            identify_sections text =
              fold (\<lambda>(kind, span) sections. sections(kind \<mapsto> strip span))
                   (zip (map (\<lambda>b. fst (snd b)) boundaries) spans) Map.empty"
proof -
  from assms have ne: "map fst (sort (section_positions text)) \<noteq> []"
    by (metis length_0_conv length_map length_sort)
  show ?thesis
    unfolding Let_def
    using sorted_offsets [of "section_positions text"]
      concat_boundary_spans [OF sorted_offsets ne, of "text"]
    by (auto simp: boundary_spans_nth identify_sections_def fill_sections_spans)
qed

theorem section_spans_partition_witness:
  "section_positions ''Skills:\<newline> a \<newline>Education:\<newline> b'' \<noteq> []
   \<and> concat (boundary_spans ''Skills:\<newline> a \<newline>Education:\<newline> b''
               (map fst (sort (section_positions ''Skills:\<newline> a \<newline>Education:\<newline> b''))))
       = drop (hd (map fst (sort (section_positions ''Skills:\<newline> a \<newline>Education:\<newline> b''))))
              ''Skills:\<newline> a \<newline>Education:\<newline> b''"
proof -
  have ne: "section_positions ''Skills:\<newline> a \<newline>Education:\<newline> b'' \<noteq> []"
    by (simp only: engine_simps data_simps program_simps
          cong: if_weak_cong option.case_cong_weak list.case_cong_weak sum.case_cong_weak)
  note spans = section_spans_partition [OF ne, unfolded Let_def]
  from ne conjunct1 [OF conjunct2 [OF conjunct2 [OF conjunct2 [OF spans]]]]
  show ?thesis by (rule conjI)
qed

text \<open>The bodies that the mapping holds are stripped: for two headers of different
  kinds the body of the first is not the span between the two offsets, and the bodies
  together are not the text from the first offset on.\<close>

theorem stripped_bodies_counterexample:
  "map fst (sort (section_positions ''Skills:\<newline> a \<newline>Education:\<newline> b'')) =
     [length ''Skills:'', length ''Skills:\<newline> a \<newline>Education:'']
   \<and> slice ''Skills:\<newline> a \<newline>Education:\<newline> b'' (length ''Skills:'') (length ''Skills:\<newline> a \<newline>Education:'')
       = ''\<newline> a \<newline>Education:''
   \<and> identify_sections ''Skills:\<newline> a \<newline>Education:\<newline> b'' ''skills'' = Some ''a \<newline>Education:''
   \<and> identify_sections ''Skills:\<newline> a \<newline>Education:\<newline> b'' ''education'' = Some ''b''
   \<and> ''a \<newline>Education:'' @ ''b'' \<noteq> drop (length ''Skills:'') ''Skills:\<newline> a \<newline>Education:\<newline> b''"
  by (simp only: engine_simps data_simps program_simps sort_simps
        cong: if_weak_cong option.case_cong_weak list.case_cong_weak sum.case_cong_weak)

text \<open>
  Claim C7.  For a kind with a boundary, the body stored under the kind is the one
  computed from the last boundary of the kind in the sorted order, whose offset is the
  greatest among the boundaries of the kind: the stripped text from that offset to the
  offset of the boundary that follows it (to the end of the text when none follows).
  Without any boundary the mapping is empty.
\<close>

theorem last_boundary_of_a_kind_wins:
  "(\<forall>kind. kind \<in> (\<lambda>b. fst (snd b)) ` set (section_positions text) \<longrightarrow>
      (\<exists>pre p t post.
          sort (section_positions text) = pre @ (p, kind, t) # post \<and>
          (\<forall>b \<in> set (section_positions text). fst (snd b) = kind \<longrightarrow> fst b \<le> p) \<and>
          identify_sections text kind =
            Some (strip (slice text p (case post of [] \<Rightarrow> length text | (q, k', t') # _ \<Rightarrow> q)))))
   \<and> (section_positions text = [] \<longrightarrow> identify_sections text = Map.empty)"
proof (intro conjI allI impI)
  fix kind
  let ?bs = "sort (section_positions text)"
  assume "kind \<in> (\<lambda>b. fst (snd b)) ` set (section_positions text)"
  then have "\<exists>b \<in> set ?bs. fst (snd b) = kind" by auto
  from split_list_last_prop [OF this] obtain pre b post
    where split: "?bs = pre @ b # post" and k: "fst (snd b) = kind"
      and none: "\<forall>z \<in> set post. fst (snd z) \<noteq> kind" by blast
  obtain p t where b: "b = (p, kind, t)" using k by (cases b) auto
  from none have notin: "kind \<notin> (\<lambda>b. fst (snd b)) ` set post" by auto
  have sorted: "sorted (pre @ b # post)" using sorted_sort [of "section_positions text"] split by simp
  have "fst c \<le> p" if "c \<in> set (section_positions text)" "fst (snd c) = kind" for c
  proof -
    from that(1) have "c \<in> set ?bs" by simp
    with split that(2) none have "c \<in> set pre \<or> c = b" by auto
    then show ?thesis
    proof
      assume "c \<in> set pre"
      with sorted have "c \<le> b" by (auto simp: sorted_append)
      with b show ?thesis by (cases c) (auto simp: less_eq_prod_def)
    next
      assume "c = b"
      with b show ?thesis by simp
    qed
  qed
  moreover have "identify_sections text kind =
      Some (strip (slice text p (case post of [] \<Rightarrow> length text | (q, k', t') # _ \<Rightarrow> q)))"
    unfolding identify_sections_def split b by (rule fill_sections_last [OF notin])
  ultimately show "\<exists>pre p t post.
          sort (section_positions text) = pre @ (p, kind, t) # post \<and>
          (\<forall>b \<in> set (section_positions text). fst (snd b) = kind \<longrightarrow> fst b \<le> p) \<and>
          identify_sections text kind =
            Some (strip (slice text p (case post of [] \<Rightarrow> length text | (q, k', t') # _ \<Rightarrow> q)))"
    using split b by blast
next
  assume "section_positions text = []"
  then show "identify_sections text = Map.empty" by (simp add: identify_sections_def)
qed

theorem last_boundary_of_a_kind_wins_witness:
  "identify_sections ''Skills:\<newline>Python\<newline>Skills:\<newline>Docker'' ''skills'' = Some ''Docker''
   \<and> (\<exists>pre p t post.
         sort (section_positions ''Skills:\<newline>Python\<newline>Skills:\<newline>Docker'') = pre @ (p, ''skills'', t) # post \<and>
         (\<forall>b \<in> set (section_positions ''Skills:\<newline>Python\<newline>Skills:\<newline>Docker''). fst (snd b) = ''skills'' \<longrightarrow> fst b \<le> p) \<and>
         identify_sections ''Skills:\<newline>Python\<newline>Skills:\<newline>Docker'' ''skills'' =
           Some (strip (slice ''Skills:\<newline>Python\<newline>Skills:\<newline>Docker'' p
                         (case post of [] \<Rightarrow> length ''Skills:\<newline>Python\<newline>Skills:\<newline>Docker'' | (q, k', t') # _ \<Rightarrow> q))))"
proof -
  have e: "identify_sections ''Skills:\<newline>Python\<newline>Skills:\<newline>Docker'' ''skills'' = Some ''Docker''"
    by (simp only: engine_simps data_simps program_simps sort_simps
          cong: if_weak_cong option.case_cong_weak list.case_cong_weak sum.case_cong_weak)
  then have "''skills'' \<in> dom (identify_sections ''Skills:\<newline>Python\<newline>Skills:\<newline>Docker'')" by blast
  then have "''skills'' \<in> (\<lambda>b. fst (snd b)) ` set (section_positions ''Skills:\<newline>Python\<newline>Skills:\<newline>Docker'')"
    by (simp only: dom_identify_sections)
  note last = last_boundary_of_a_kind_wins
    [of "''Skills:\<newline>Python\<newline>Skills:\<newline>Docker''", THEN conjunct1, THEN spec, THEN mp, OF this]
  from e last show ?thesis by (rule conjI)
qed

text \<open>
  Claim C8.  \<^verbatim>\<open>extract_name\<close> looks at the first three lines only; when it returns a
  name, that name is the first of these lines with at most 4 whitespace-separated tokens
  and a stripped length greater than 3, with its surrounding whitespace stripped; it
  returns \<^verbatim>\<open>None\<close> exactly when none of the first three lines qualifies.
\<close>

theorem extract_name_first_three_lines:
  "(take 3 (split_on newline text) = take 3 (split_on newline text') \<longrightarrow>
      extract_name text = extract_name text')
   \<and> (\<forall>n. extract_name text = Some n \<longrightarrow>
        (\<exists>i < min 3 (length (split_on newline text)).
           name_like (split_on newline text ! i) \<and> n = strip (split_on newline text ! i) \<and>
           (\<forall>j < i. \<not> name_like (split_on newline text ! j))))
   \<and> (extract_name text = None \<longleftrightarrow>
        (\<forall>i < min 3 (length (split_on newline text)). \<not> name_like (split_on newline text ! i)))"
proof (intro conjI allI impI)
  assume "take 3 (split_on newline text) = take 3 (split_on newline text')"
  then show "extract_name text = extract_name text'" by (simp add: extract_name_find)
next
  fix n
  assume "extract_name text = Some n"
  then obtain line where f: "find name_like (take 3 (split_on newline text)) = Some line"
    and n: "n = strip line" by (auto simp: extract_name_find)
  from f obtain i where "i < length (take 3 (split_on newline text))"
    "name_like (take 3 (split_on newline text) ! i)" "line = take 3 (split_on newline text) ! i"
    "\<forall>j < i. \<not> name_like (take 3 (split_on newline text) ! j)"
    by (auto simp: find_Some_iff)
  with n show "\<exists>i < min 3 (length (split_on newline text)).
           name_like (split_on newline text ! i) \<and> n = strip (split_on newline text ! i) \<and>
           (\<forall>j < i. \<not> name_like (split_on newline text ! j))"
    by (intro exI [of _ i]) auto
next
  show "extract_name text = None \<longleftrightarrow>
        (\<forall>i < min 3 (length (split_on newline text)). \<not> name_like (split_on newline text ! i))"
    by (auto simp: extract_name_find find_None_iff in_set_conv_nth)
qed

theorem extract_name_first_three_lines_witness:
  "extract_name ''CV\<newline>Jane Smith\<newline>Acme Corp'' = Some ''Jane Smith''
   \<and> (\<exists>i < min 3 (length (split_on newline ''CV\<newline>Jane Smith\<newline>Acme Corp'')).
          name_like (split_on newline ''CV\<newline>Jane Smith\<newline>Acme Corp'' ! i) \<and>
          ''Jane Smith'' = strip (split_on newline ''CV\<newline>Jane Smith\<newline>Acme Corp'' ! i) \<and>
          (\<forall>j < i. \<not> name_like (split_on newline ''CV\<newline>Jane Smith\<newline>Acme Corp'' ! j)))"
proof -
  have e: "extract_name ''CV\<newline>Jane Smith\<newline>Acme Corp'' = Some ''Jane Smith''"
    by (simp only: engine_simps data_simps program_simps
          cong: if_weak_cong option.case_cong_weak list.case_cong_weak sum.case_cong_weak)
  from extract_name_first_three_lines
         [of "''CV\<newline>Jane Smith\<newline>Acme Corp''" "''CV\<newline>Jane Smith\<newline>Acme Corp''"] e
  show ?thesis by blast
qed

text \<open>
  Claim C9.  Without an experience section the result is the empty list.  With one, the
  extractor returns normally; it returns as many entries as the section has lines that
  match some date pattern (a line gives one anchor: the text matched by the first
  pattern of the list that matches it); the dates of the entries are, up to the order of
  the sort, the texts matched on these lines; and no date is the placeholder
  \<^verbatim>\<open>"Unknown"\<close>.
\<close>

theorem one_entry_per_date_line:
  "(locate_experience_section text = None \<longrightarrow> extract_work_experiences_v2 text = Inr [])
   \<and> (\<forall>experience_section. locate_experience_section text = Some experience_section \<longrightarrow>
        (\<exists>jobs. extract_work_experiences_v2 text = Inr jobs \<and>
           length jobs = length (date_lines experience_section) \<and>
           mset (map date jobs) =
             mset (map (\<lambda>line. the (first_date_match date_patterns line)) (date_lines experience_section)) \<and>
           (\<forall>job \<in> set jobs. date job \<noteq> ''Unknown'')))
   \<and> (\<forall>line date_text. first_date_match date_patterns line = Some date_text \<longrightarrow>
        (\<exists>i < length date_patterns.
           (\<exists>m. re_search True (date_patterns ! i) line = Some m \<and> date_text = m_group0 m) \<and>
           (\<forall>j < i. re_search True (date_patterns ! j) line = None)))"
proof (intro conjI allI impI)
  assume "locate_experience_section text = None"
  then show "extract_work_experiences_v2 text = Inr []" by (simp add: extract_work_experiences_v2_def)
next
  fix experience_section
  assume loc: "locate_experience_section text = Some experience_section"
  let ?lines = "split_on newline experience_section"
  let ?dps = "find_date_positions 0 ?lines"
  have dl: "date_lines experience_section = filter (\<lambda>line. first_date_match date_patterns line \<noteq> None) ?lines"
    by (simp only: date_lines_def first_date_match_matches)
  have dates: "map snd ?dps = map (\<lambda>line. the (first_date_match date_patterns line)) (date_lines experience_section)"
    by (simp add: find_date_positions_dates dl)
  show "\<exists>jobs. extract_work_experiences_v2 text = Inr jobs \<and>
           length jobs = length (date_lines experience_section) \<and>
           mset (map date jobs) =
             mset (map (\<lambda>line. the (first_date_match date_patterns line)) (date_lines experience_section)) \<and>
           (\<forall>job \<in> set jobs. date job \<noteq> ''Unknown'')"
  proof (cases "?dps = []")
    case True
    with dates have "date_lines experience_section = []" by simp
    with True loc show ?thesis by (simp add: extract_work_experiences_v2_def)
  next
    case False
    from sort_newest_first_total [of "build_entries ?lines ?dps"]
    obtain jobs where jobs: "sort_newest_first (build_entries ?lines ?dps) = Inr jobs"
      and perm: "mset jobs = mset (build_entries ?lines ?dps)" by blast
    from False loc jobs have res: "extract_work_experiences_v2 text = Inr jobs"
      by (simp add: extract_work_experiences_v2_def)
    from perm have "mset (map date jobs) = mset (map date (build_entries ?lines ?dps))"
      by (metis mset_map)
    with dates have m: "mset (map date jobs) =
        mset (map (\<lambda>line. the (first_date_match date_patterns line)) (date_lines experience_section))"
      by (simp only: build_entries_dates)
    then have len: "length jobs = length (date_lines experience_section)"
      by (metis length_map size_mset)
    have "date job \<noteq> ''Unknown''" if "job \<in> set jobs" for job
    proof -
      from that have "date job \<in># mset (map date jobs)" by simp
      with m have "date job \<in> set (map (\<lambda>line. the (first_date_match date_patterns line)) (date_lines experience_section))"
        by (metis set_mset_mset)
      then obtain line where "first_date_match date_patterns line \<noteq> None"
        "date job = the (first_date_match date_patterns line)"
        by (auto simp: dl)
      then have "first_date_match date_patterns line = Some (date job)" by auto
      then show ?thesis by (rule first_date_match_not_Unknown)
    qed
    with res m len show ?thesis by blast
  qed
next
  fix line date_text
  assume "first_date_match date_patterns line = Some date_text"
  then show "\<exists>i < length date_patterns.
           (\<exists>m. re_search True (date_patterns ! i) line = Some m \<and> date_text = m_group0 m) \<and>
           (\<forall>j < i. re_search True (date_patterns ! j) line = None)"
    by (rule first_date_match_Some)
qed

theorem one_entry_per_date_line_witness:
  "locate_experience_section ''Work Experience:\<newline>Acme Corp\<newline>Jan 2020 - Present\<newline>Built systems.''
     = Some ''Acme Corp\<newline>Jan 2020 - Present\<newline>Built systems.''
   \<and> (\<exists>jobs. extract_work_experiences_v2 ''Work Experience:\<newline>Acme Corp\<newline>Jan 2020 - Present\<newline>Built systems.'' = Inr jobs \<and>
          length jobs = length (date_lines ''Acme Corp\<newline>Jan 2020 - Present\<newline>Built systems.'') \<and>
          mset (map date jobs) =
            mset (map (\<lambda>line. the (first_date_match date_patterns line))
                      (date_lines ''Acme Corp\<newline>Jan 2020 - Present\<newline>Built systems.'')) \<and>
          (\<forall>job \<in> set jobs. date job \<noteq> ''Unknown''))
   \<and> first_date_match date_patterns ''Jan 2020 - Present'' = Some ''Jan 2020 - Present''"
proof -
  have loc: "locate_experience_section ''Work Experience:\<newline>Acme Corp\<newline>Jan 2020 - Present\<newline>Built systems.''
     = Some ''Acme Corp\<newline>Jan 2020 - Present\<newline>Built systems.''"
    by (simp only: engine_simps data_simps program_simps sort_simps
          cong: if_weak_cong option.case_cong_weak list.case_cong_weak sum.case_cong_weak)
  have d: "first_date_match date_patterns ''Jan 2020 - Present'' = Some ''Jan 2020 - Present''"
    by (simp only: engine_simps data_simps program_simps
          cong: if_weak_cong option.case_cong_weak list.case_cong_weak sum.case_cong_weak)
  note jobs = one_entry_per_date_line
    [of "''Work Experience:\<newline>Acme Corp\<newline>Jan 2020 - Present\<newline>Built systems.''",
     THEN conjunct2, THEN conjunct1, THEN spec, THEN mp, OF loc]
  show ?thesis by (intro conjI) (rule loc, rule jobs, rule d)
qed

text \<open>
  Claim C10.  Every key of the mapping that \<^verbatim>\<open>identify_sections\<close> returns is one of
  the twelve section kinds; \<^verbatim>\<open>"content"\<close> and the keys \<^verbatim>\<open>"page_N"\<close> are never among
  them: they come from the section glue of \<^verbatim>\<open>extract_from_pdf\<close>, which always adds
  \<^verbatim>\<open>"content"\<close> and adds a key per page for a pypdf extraction with pages.
\<close>

theorem identify_sections_keys:
  "dom (identify_sections text) \<subseteq>
     {''summary'', ''experience'', ''education'', ''skills'', ''certifications'', ''languages'',
      ''projects'', ''interests'', ''references'', ''publications'', ''awards'', ''volunteering''}
   \<and> ''content'' \<notin> dom (identify_sections text)
   \<and> (\<forall>i. page_key i \<notin> dom (identify_sections text))
   \<and> ''content'' \<in> dom (glue_sections method_name text pages)
   \<and> (\<forall>ps i. method_name = ''pypdf'' \<and> pages = Some ps \<and> i < length ps \<longrightarrow>
         page_key i \<in> dom (glue_sections method_name text pages))"
proof (intro conjI allI impI)
  from dom_identify_sections_kinds [of "text"]
  show "dom (identify_sections text) \<subseteq>
     {''summary'', ''experience'', ''education'', ''skills'', ''certifications'', ''languages'',
      ''projects'', ''interests'', ''references'', ''publications'', ''awards'', ''volunteering''}"
    by (simp add: section_kinds_def)
  have "''content'' \<notin> set section_kinds" by (simp add: section_kinds_def)
  with dom_identify_sections_kinds [of "text"] show "''content'' \<notin> dom (identify_sections text)"
    by blast
  show "page_key i \<notin> dom (identify_sections text)" for i
    using dom_identify_sections_kinds [of "text"] page_key_not_kind [of i] by blast
  show "''content'' \<in> dom (glue_sections method_name text pages)"
    by (auto simp: glue_sections_def Let_def dom_fold_pages split: option.splits)
  show "page_key i \<in> dom (glue_sections method_name text pages)"
    if "method_name = ''pypdf'' \<and> pages = Some ps \<and> i < length ps" for ps i
    using that by (auto simp: glue_sections_def Let_def dom_fold_pages)
qed

theorem identify_sections_keys_witness:
  "''pypdf'' = ''pypdf'' \<and> Some [''first page'', ''second page''] = Some [''first page'', ''second page'']
   \<and> 1 < length [''first page'', ''second page'']
   \<and> page_key 1 \<in> dom (glue_sections ''pypdf'' ''Skills:\<newline>Python'' (Some [''first page'', ''second page'']))"
  using identify_sections_keys
          [of "''Skills:\<newline>Python''" "''pypdf''" "Some [''first page'', ''second page'']"]
  by simp

end
